theory Spec2Isabelle
  imports Main "HOL-Library.AList"
begin

section \<open>Python values, dictionaries and errors\<close>

text \<open>
  Property values coming from the graph database are the Python values
  \<open>None\<close>, \<open>bool\<close>, \<open>int\<close>, \<open>float\<close>, \<open>str\<close> and \<open>list\<close>.
  The carrier of floating-point numbers is the type parameter \<open>'f\<close>: the repository
  never looks inside a float, it only converts (\<open>float(x)\<close>, \<open>str(x)\<close>) and compares
  them, and these operations of the Python runtime are taken as a parameter
  (record \<open>runtime\<close> below).  Strings are byte strings; the string helpers below are
  those of Python on ASCII text.
\<close>

datatype 'f pyval =
    PNone
  | PBool bool
  | PInt int
  | PFloat 'f
  | PStr string
  | PList "'f pyval list"

datatype py_error = TypeError | KeyError | IndexError | ValueError | OverflowError | AttributeError

type_synonym 'f attrs = "(string \<times> 'f pyval) list"

text \<open>
  A Python \<open>dict\<close> is an association list in insertion order; \<open>d[k] = v\<close> is
  \<^const>\<open>AList.update\<close> (an existing key keeps its position, a new key goes last),
  \<open>d.get(k)\<close> is \<^const>\<open>map_of\<close>.
\<close>

definition dict_update :: "('k \<times> 'v) list \<Rightarrow> ('k \<times> 'v) list \<Rightarrow> ('k \<times> 'v) list" where
  \<comment> \<open>\<open>d.update(e)\<close>\<close>
  "dict_update d e = fold (\<lambda>(k, v) acc. AList.update k v acc) e d"

definition dict_get :: "('k \<times> 'v) list \<Rightarrow> 'k \<Rightarrow> 'v \<Rightarrow> 'v" where
  \<comment> \<open>\<open>d.get(k, default)\<close>\<close>
  "dict_get d k dflt = (case map_of d k of None \<Rightarrow> dflt | Some v \<Rightarrow> v)"

fun foldM :: "('a \<Rightarrow> 's \<Rightarrow> py_error + 's) \<Rightarrow> 'a list \<Rightarrow> 's \<Rightarrow> py_error + 's" where
  "foldM f [] s = Inr s"
| "foldM f (x # xs) s = (case f x s of Inl e \<Rightarrow> Inl e | Inr s' \<Rightarrow> foldM f xs s')"

section \<open>The raw payload (\<open>graph_data\<close>)\<close>

text \<open>
  \<open>graph_data = {"nodes": {id: {"labels": [...], "properties": {...}}},
  "relationships": {id: {"type": ..., "properties": {...}, "start_node": ..., "end_node": ...}}}\<close>.
  The relationship's \<open>properties\<close> are read with \<open>rel_info.get("properties", {})\<close>; a
  missing key and an empty dict behave alike and are both the empty list here.
\<close>

record 'f node_info =
  labels :: "string list"
  properties :: "'f attrs"

record 'f rel_info =
  rel_type :: string
  rel_properties :: "'f attrs"
  start_node :: string
  end_node :: string

record 'f graph_data =
  nodes :: "(string \<times> 'f node_info) list"
  relationships :: "(string \<times> 'f rel_info) list"

definition primary_type :: "'f node_info \<Rightarrow> string" where
  \<comment> \<open>\<open>node_info["labels"][0] if node_info["labels"] else "Unknown"\<close>\<close>
  "primary_type ni = (case labels ni of [] \<Rightarrow> ''Unknown'' | l # _ \<Rightarrow> l)"

section \<open>The directed graph of networkx\<close>

text \<open>
  \<open>nx.DiGraph\<close> keeps a dict of node attribute dicts (\<open>_node\<close>) and a dict of
  successor dicts (\<open>_adj\<close>): one attribute dict per ordered pair of nodes, so a second
  \<open>add_edge\<close> on the same pair updates the attributes of the existing edge.
  \<open>add_edge\<close> creates the end points it does not find.
\<close>

record 'f digraph =
  g_node :: "(string \<times> 'f attrs) list"
  g_adj :: "(string \<times> (string \<times> 'f attrs) list) list"

definition empty_digraph :: "'f digraph" where
  "empty_digraph = \<lparr>g_node = [], g_adj = []\<rparr>"

definition nx_add_node :: "'f digraph \<Rightarrow> string \<Rightarrow> 'f attrs \<Rightarrow> 'f digraph" where
  "nx_add_node G n attr =
     (case map_of (g_node G) n of
        None \<Rightarrow> \<lparr>g_node = g_node G @ [(n, dict_update [] attr)], g_adj = g_adj G @ [(n, [])]\<rparr>
      | Some old \<Rightarrow> G\<lparr>g_node := AList.update n (dict_update old attr) (g_node G)\<rparr>)"

definition nx_add_edge :: "'f digraph \<Rightarrow> string \<Rightarrow> string \<Rightarrow> 'f attrs \<Rightarrow> 'f digraph" where
  "nx_add_edge G u v attr =
     (let G1 = nx_add_node G u [];
          G2 = nx_add_node G1 v [];
          nbrs = dict_get (g_adj G2) u [];
          datadict = dict_update (dict_get nbrs v []) attr
      in G2\<lparr>g_adj := AList.update u (AList.update v datadict nbrs) (g_adj G2)\<rparr>)"

definition nodes_of :: "'f digraph \<Rightarrow> string list" where
  \<comment> \<open>\<open>G.nodes()\<close>\<close>
  "nodes_of G = map fst (g_node G)"

definition edges_of :: "'f digraph \<Rightarrow> (string \<times> string \<times> 'f attrs) list" where
  \<comment> \<open>\<open>G.edges(data=True)\<close>\<close>
  "edges_of G = concat (map (\<lambda>(u, nbrs). map (\<lambda>(v, d). (u, v, d)) nbrs) (g_adj G))"

definition number_of_nodes :: "'f digraph \<Rightarrow> int" where
  "number_of_nodes G = int (length (g_node G))"

definition number_of_edges :: "'f digraph \<Rightarrow> int" where
  "number_of_edges G = int (sum_list (map (\<lambda>(u, nbrs). length nbrs) (g_adj G)))"

definition has_edge :: "'f digraph \<Rightarrow> string \<Rightarrow> string \<Rightarrow> bool" where
  "has_edge G u v = (case map_of (g_adj G) u of None \<Rightarrow> False | Some nbrs \<Rightarrow> map_of nbrs v \<noteq> None)"

definition edge_data :: "'f digraph \<Rightarrow> string \<Rightarrow> string \<Rightarrow> 'f attrs option" where
  \<comment> \<open>\<open>G[u][v]\<close>\<close>
  "edge_data G u v = (case map_of (g_adj G) u of None \<Rightarrow> None | Some nbrs \<Rightarrow> map_of nbrs v)"

text \<open>
  \<open>G.add_node(node_id, **node_props)\<close> and
  \<open>G.add_edge(u, v, type=..., **props)\<close> pass the dictionary as keyword arguments: a key
  that names a parameter of the callee, or repeats the explicit keyword \<open>type\<close>, raises
  \<open>TypeError\<close> before the call.  The parameter names are those of networkx 2 and 3.
\<close>

definition node_reserved :: "string list" where
  "node_reserved = [''self'', ''node_for_adding'']"

definition edge_reserved :: "string list" where
  "edge_reserved = [''self'', ''u_of_edge'', ''v_of_edge'', ''type'']"

definition clash :: "string list \<Rightarrow> 'f attrs \<Rightarrow> bool" where
  "clash reserved kw = list_ex (\<lambda>(k, v). k \<in> set reserved) kw"

section \<open>\<open>GraphPlotter._create_networkx_graph\<close> (graph\_plotting.py)\<close>

definition node_props :: "'f node_info \<Rightarrow> 'f attrs" where
  "node_props ni =
     dict_update [(''label'', PStr (primary_type ni)), (''type'', PStr (primary_type ni))]
                 (properties ni)"

definition add_payload_node :: "string \<times> 'f node_info \<Rightarrow> 'f digraph \<Rightarrow> py_error + 'f digraph" where
  "add_payload_node = (\<lambda>(node_id, ni) G.
     if clash node_reserved (node_props ni) then Inl TypeError
     else Inr (nx_add_node G node_id (node_props ni)))"

definition add_payload_rel :: "string \<times> 'f rel_info \<Rightarrow> 'f digraph \<Rightarrow> py_error + 'f digraph" where
  "add_payload_rel = (\<lambda>(rel_id, ri) G.
     if clash edge_reserved (rel_properties ri) then Inl TypeError
     else Inr (nx_add_edge G (start_node ri) (end_node ri)
                 ((''type'', PStr (rel_type ri)) # rel_properties ri)))"

definition create_networkx_graph :: "'f graph_data \<Rightarrow> py_error + 'f digraph" where
  "create_networkx_graph gd =
     (case foldM add_payload_node (nodes gd) empty_digraph of
        Inl e \<Rightarrow> Inl e
      | Inr G \<Rightarrow> foldM add_payload_rel (relationships gd) G)"


definition node_type :: "'f digraph \<Rightarrow> string \<Rightarrow> 'f pyval" where
  \<comment> \<open>\<open>self.G.nodes[node].get("type", "Unknown")\<close>\<close>
  "node_type G n = dict_get (dict_get (g_node G) n []) ''type'' (PStr ''Unknown'')"

section \<open>Strings of Python\<close>

definition py_isspace :: "char \<Rightarrow> bool" where
  "py_isspace c = (c \<in> set [CHR 0x09, CHR 0x0A, CHR 0x0B, CHR 0x0C, CHR 0x0D,
                               CHR 0x1C, CHR 0x1D, CHR 0x1E, CHR 0x1F, CHR 0x20])"

definition strip_chars :: "string \<Rightarrow> string \<Rightarrow> string" where
  \<comment> \<open>\<open>s.strip(chars)\<close>\<close>
  "strip_chars s chars =
     rev (dropWhile (\<lambda>c. c \<in> set chars) (rev (dropWhile (\<lambda>c. c \<in> set chars) s)))"

definition strip :: "string \<Rightarrow> string" where
  \<comment> \<open>\<open>s.strip()\<close>\<close>
  "strip s = rev (dropWhile py_isspace (rev (dropWhile py_isspace s)))"

definition lower_char :: "char \<Rightarrow> char" where
  "lower_char c =
     (case map_of (zip ''ABCDEFGHIJKLMNOPQRSTUVWXYZ'' ''abcdefghijklmnopqrstuvwxyz'') c of
        None \<Rightarrow> c | Some l \<Rightarrow> l)"

definition lower :: "string \<Rightarrow> string" where
  \<comment> \<open>\<open>s.lower()\<close>\<close>
  "lower s = map lower_char s"

definition startswith :: "string \<Rightarrow> string \<Rightarrow> bool" where
  \<comment> \<open>\<open>s.startswith(p)\<close>\<close>
  "startswith s p = (take (length p) s = p)"

fun py_find :: "string \<Rightarrow> string \<Rightarrow> int" where
  \<comment> \<open>\<open>s.find(sub)\<close>: the first index of \<open>sub\<close> in \<open>s\<close>, or \<open>-1\<close>\<close>
  "py_find [] sub = (if sub = [] then 0 else - 1)"
| "py_find (c # cs) sub =
     (if startswith (c # cs) sub then 0
      else (let r = py_find cs sub in if r < 0 then - 1 else r + 1))"

definition py_in :: "string \<Rightarrow> string \<Rightarrow> bool" where
  \<comment> \<open>\<open>sub in s\<close>\<close>
  "py_in sub s = (0 \<le> py_find s sub)"

fun split_from :: "string \<Rightarrow> string \<Rightarrow> string \<Rightarrow> string list" where
  "split_from sep acc [] = [rev acc]"
| "split_from sep acc (c # cs) =
     (if startswith (c # cs) sep then rev acc # split_from sep [] (drop (length sep - 1) cs)
      else split_from sep (c # acc) cs)"

definition py_split :: "string \<Rightarrow> string \<Rightarrow> string list" where
  \<comment> \<open>\<open>s.split(sep)\<close>, for a non-empty separator\<close>
  "py_split s sep = split_from sep [] s"

fun py_replace :: "string \<Rightarrow> string \<Rightarrow> string \<Rightarrow> string" where
  \<comment> \<open>\<open>s.replace(old, new)\<close>, for a non-empty \<open>old\<close>\<close>
  "py_replace [] old new = []"
| "py_replace (c # cs) old new =
     (if startswith (c # cs) old then new @ py_replace (drop (length old - 1) cs) old new
      else c # py_replace cs old new)"

definition isdigit :: "string \<Rightarrow> bool" where
  \<comment> \<open>\<open>s.isdigit()\<close>\<close>
  "isdigit s = (s \<noteq> [] \<and> list_all (\<lambda>c. c \<in> set ''0123456789'') s)"

definition py_index :: "'a list \<Rightarrow> nat \<Rightarrow> py_error + 'a" where
  \<comment> \<open>\<open>xs[i]\<close> for \<open>i \<ge> 0\<close>\<close>
  "py_index xs i = (if i < length xs then Inr (xs ! i) else Inl IndexError)"

fun str_nat :: "nat \<Rightarrow> string" where
  "str_nat n = (if n < 10 then [''0123456789'' ! n]
                else str_nat (n div 10) @ [''0123456789'' ! (n mod 10)])"

declare str_nat.simps [simp del]

definition str_int :: "int \<Rightarrow> string" where
  "str_int i = (if i < 0 then CHR ''-'' # str_nat (nat (- i)) else str_nat (nat i))"

section \<open>The operations of the runtime on floats\<close>

text \<open>
  \<open>str_float\<close> is \<open>str(x)\<close> of a float and \<open>str_list\<close> that of a list,
  \<open>float_of_int\<close> is \<open>float(i)\<close> (\<open>None\<close>: \<open>OverflowError\<close>), \<open>float_of_str\<close> is
  \<open>float(s)\<close> (\<open>None\<close>: \<open>ValueError\<close>), \<open>float_eq\<close> and \<open>float_lt\<close> are \<open>==\<close> and
  \<open><\<close> on floats, and \<open>key_eq\<close> says when two hashable values are the same dictionary
  key.
\<close>

record 'f runtime =
  str_float :: "'f \<Rightarrow> string"
  str_list :: "'f pyval list \<Rightarrow> string"
  float_of_int :: "int \<Rightarrow> 'f option"
  float_of_str :: "string \<Rightarrow> 'f option"
  float_eq :: "'f \<Rightarrow> 'f \<Rightarrow> bool"
  float_lt :: "'f \<Rightarrow> 'f \<Rightarrow> bool"
  key_eq :: "'f pyval \<Rightarrow> 'f pyval \<Rightarrow> bool"

fun py_str :: "'f runtime \<Rightarrow> 'f pyval \<Rightarrow> string" where
  \<comment> \<open>\<open>str(value)\<close>\<close>
  "py_str rt PNone = ''None''"
| "py_str rt (PBool b) = (if b then ''True'' else ''False'')"
| "py_str rt (PInt i) = str_int i"
| "py_str rt (PFloat x) = str_float rt x"
| "py_str rt (PStr s) = s"
| "py_str rt (PList xs) = str_list rt xs"

fun py_float :: "'f runtime \<Rightarrow> 'f pyval \<Rightarrow> py_error + 'f" where
  \<comment> \<open>\<open>float(value)\<close>\<close>
  "py_float rt PNone = Inl TypeError"
| "py_float rt (PBool b) =
     (case float_of_int rt (if b then 1 else 0) of None \<Rightarrow> Inl OverflowError | Some x \<Rightarrow> Inr x)"
| "py_float rt (PInt i) =
     (case float_of_int rt i of None \<Rightarrow> Inl OverflowError | Some x \<Rightarrow> Inr x)"
| "py_float rt (PFloat x) = Inr x"
| "py_float rt (PStr s) =
     (case float_of_str rt s of None \<Rightarrow> Inl ValueError | Some x \<Rightarrow> Inr x)"
| "py_float rt (PList xs) = Inl TypeError"

fun is_str :: "'f pyval \<Rightarrow> bool" where
  \<comment> \<open>\<open>isinstance(value, str)\<close>\<close>
  "is_str (PStr s) = True"
| "is_str v = False"

fun is_str_int_float :: "'f pyval \<Rightarrow> bool" where
  \<comment> \<open>\<open>isinstance(value, (str, int, float))\<close>; \<open>bool\<close> is a subclass of \<open>int\<close>\<close>
  "is_str_int_float (PStr s) = True"
| "is_str_int_float (PInt i) = True"
| "is_str_int_float (PFloat x) = True"
| "is_str_int_float (PBool b) = True"
| "is_str_int_float v = False"


section \<open>\<open>PatternPropertyExplorer._evaluate_filter\<close> (search\_function.py)\<close>

text \<open>
  A \<open>try: ... except: return False\<close> block is a computation in \<open>py_error + bool\<close>
  whose error is turned into \<open>False\<close> by the caller.  \<open>x > y\<close> on floats is
  \<open>float_lt rt y x\<close>.
\<close>

definition quotes :: string where
  "quotes = [CHR 0x27, CHR 0x22]"

definition equality_comparison :: "'f runtime \<Rightarrow> 'f pyval \<Rightarrow> string \<Rightarrow> py_error + bool" where
  "equality_comparison rt v compare_value =
     (if isdigit compare_value then
        (case py_float rt v of
           Inl e \<Rightarrow> Inl e
         | Inr a \<Rightarrow> (case py_float rt (PStr compare_value) of
                      Inl e \<Rightarrow> Inl e
                    | Inr b \<Rightarrow> Inr (float_eq rt a b)))
      else Inr (lower (py_str rt v) = lower compare_value))"

definition numeric_comparison :: "'f runtime \<Rightarrow> 'f pyval \<Rightarrow> string \<Rightarrow> py_error + bool" where
  "numeric_comparison rt v fc =
     (case py_float rt v of
        Inl e \<Rightarrow> Inl e
      | Inr numeric_value \<Rightarrow>
          if startswith fc ''>'' then
            (case py_float rt (PStr (strip (drop 1 fc))) of
               Inl e \<Rightarrow> Inl e
             | Inr threshold \<Rightarrow> Inr (float_lt rt threshold numeric_value))
          else if startswith fc ''<'' then
            (case py_float rt (PStr (strip (drop 1 fc))) of
               Inl e \<Rightarrow> Inl e
             | Inr threshold \<Rightarrow> Inr (float_lt rt numeric_value threshold))
          else Inr True)"

definition except_False :: "py_error + bool \<Rightarrow> bool" where
  "except_False r = (case r of Inl e \<Rightarrow> False | Inr b \<Rightarrow> b)"

definition evaluate_filter :: "'f runtime \<Rightarrow> 'f pyval \<Rightarrow> string \<Rightarrow> py_error + bool" where
  "evaluate_filter rt v filter_condition =
     (if filter_condition = [] then Inr True
      else
        let fc = lower (strip filter_condition) in
        if py_in ''contains'' fc then
          (case py_index (py_split fc ''contains'') 1 of
             Inl e \<Rightarrow> Inl e
           | Inr part \<Rightarrow>
               let search_term = strip_chars (strip part) quotes
               in Inr (is_str v \<and> py_in (lower search_term) (lower (py_str rt v))))
        else if startswith fc ''=='' \<or> py_in ''='' fc then
          (let compare_value =
                 strip_chars (strip (py_replace (py_replace fc ''=='' []) ''='' [])) quotes
           in Inr (except_False (equality_comparison rt v compare_value)))
        else Inr (except_False (numeric_comparison rt v fc)))"

section \<open>Node styling, search and reset (graph\_plotting.py)\<close>

definition style_of :: "'f pyval \<Rightarrow> py_error + (string \<times> int)" where
  \<comment> \<open>the \<open>if\<close>/\<open>elif\<close> chain of \<open>_get_node_styling\<close>; \<open>node_type.startswith\<close> on a
      value that is not a string raises \<open>AttributeError\<close>\<close>
  "style_of t =
     (if t = PStr ''Movie'' then Inr (''#3182bd'', 10)
      else if t = PStr ''Person'' then Inr (''#31a354'', 8)
      else (case t of
              PStr s \<Rightarrow>
                if s = ''Actor_1'' \<or> startswith s ''Actor'' then Inr (''#31a354'', 8)
                else if s = ''Director'' then Inr (''#e6550d'', 12)
                else if s = ''Genre'' then Inr (''#e6550d'', 6)
                else Inr (''#756bb1'', 5)
            | _ \<Rightarrow> Inl AttributeError))"

definition get_node_styling :: "'f digraph \<Rightarrow> py_error + (string list \<times> int list)" where
  "get_node_styling G =
     foldM (\<lambda>node (node_colors, node_sizes).
              case style_of (node_type G node) of
                Inl e \<Rightarrow> Inl e
              | Inr (c, sz) \<Rightarrow> Inr (node_colors @ [c], node_sizes @ [sz]))
           (nodes_of G) ([], [])"

text \<open>
  The renderer is the Bokeh object made by \<open>create_visualization\<close>; the methods below
  only write the column \<open>node_renderer.data_source.data['color']\<close>.
\<close>

record renderer =
  data_color :: "string list"

record 'f plotter =
  plotter_G :: "'f digraph"
  graph_renderer :: "renderer option"

definition found :: "'f runtime \<Rightarrow> 'f digraph \<Rightarrow> string \<Rightarrow> string \<Rightarrow> bool" where
  \<comment> \<open>\<open>any(str(value).lower().find(search_term) >= 0 for value in node_data.values()
      if isinstance(value, (str, int, float)))\<close>\<close>
  "found rt G search_term node =
     list_ex (\<lambda>v. 0 \<le> py_find (lower (py_str rt v)) search_term)
             (filter is_str_int_float (map snd (dict_get (g_node G) node [])))"

definition highlight_nodes ::
  "'f runtime \<Rightarrow> 'f plotter \<Rightarrow> string \<Rightarrow> py_error + (string list \<times> 'f plotter)" where
  "highlight_nodes rt p search_term =
     (case graph_renderer p of
        None \<Rightarrow> Inr ([], p)
      | Some r \<Rightarrow>
          (case get_node_styling (plotter_G p) of
             Inl e \<Rightarrow> Inl e
           | Inr (original_colors, sizes) \<Rightarrow>
               let term = lower search_term;
                   node_colors =
                     map (\<lambda>(i, node). if found rt (plotter_G p) term node then ''#FFD700''
                                        else original_colors ! i)
                         (enumerate 0 (nodes_of (plotter_G p)));
                   matching_nodes = filter (found rt (plotter_G p) term) (nodes_of (plotter_G p))
               in Inr (matching_nodes, p\<lparr>graph_renderer := Some (r\<lparr>data_color := node_colors\<rparr>)\<rparr>)))"

definition reset_node_colors :: "'f plotter \<Rightarrow> py_error + 'f plotter" where
  "reset_node_colors p =
     (case graph_renderer p of
        None \<Rightarrow> Inr p
      | Some r \<Rightarrow>
          (case get_node_styling (plotter_G p) of
             Inl e \<Rightarrow> Inl e
           | Inr (node_colors, sizes) \<Rightarrow>
               Inr (p\<lparr>graph_renderer := Some (r\<lparr>data_color := node_colors\<rparr>)\<rparr>)))"

definition highlight_all :: "'f runtime \<Rightarrow> string list \<Rightarrow> 'f plotter \<Rightarrow> py_error + 'f plotter" where
  \<comment> \<open>a sequence of searches, one after the other\<close>
  "highlight_all rt terms p =
     foldM (\<lambda>t q. case highlight_nodes rt q t of Inl e \<Rightarrow> Inl e | Inr (ms, q') \<Rightarrow> Inr q') terms p"

section \<open>\<open>GraphPlotter.get_graph_statistics\<close>\<close>

text \<open>
  The two histograms are dictionaries keyed by the \<open>type\<close> attribute; a list is not
  hashable and raises \<open>TypeError\<close>.  The entries \<open>is_connected\<close> and \<open>density\<close> of the
  result are computed by networkx from the graph alone and are left out.  An empty graph
  is falsy, and the method returns the empty dictionary (\<open>None\<close> here).
\<close>

record 'f statistics =
  total_nodes :: int
  total_edges :: int
  node_types :: "('f pyval \<times> int) list"
  edge_types :: "('f pyval \<times> int) list"

fun hashable :: "'f pyval \<Rightarrow> bool" where
  "hashable (PList xs) = False"
| "hashable v = True"

fun dict_incr :: "('k \<Rightarrow> 'k \<Rightarrow> bool) \<Rightarrow> 'k \<Rightarrow> ('k \<times> int) list \<Rightarrow> ('k \<times> int) list" where
  \<comment> \<open>\<open>d[k] = d.get(k, 0) + 1\<close>\<close>
  "dict_incr eq k [] = [(k, 1)]"
| "dict_incr eq k ((k', c) # d) =
     (if eq k' k then (k', c + 1) # d else (k', c) # dict_incr eq k d)"

definition count_type ::
  "'f runtime \<Rightarrow> 'f pyval \<Rightarrow> ('f pyval \<times> int) list \<Rightarrow> py_error + ('f pyval \<times> int) list" where
  "count_type rt t d = (if hashable t then Inr (dict_incr (key_eq rt) t d) else Inl TypeError)"

definition get_graph_statistics :: "'f runtime \<Rightarrow> 'f digraph \<Rightarrow> py_error + 'f statistics option" where
  "get_graph_statistics rt G =
     (if g_node G = [] then Inr None
      else
        (case foldM (\<lambda>node d. count_type rt (node_type G node) d) (nodes_of G) [] of
           Inl e \<Rightarrow> Inl e
         | Inr nts \<Rightarrow>
             (case foldM (\<lambda>(u, v, data) d. count_type rt (dict_get data ''type'' (PStr ''Unknown'')) d)
                         (edges_of G) [] of
                Inl e \<Rightarrow> Inl e
              | Inr ets \<Rightarrow>
                  Inr (Some \<lparr>total_nodes = number_of_nodes G, total_edges = number_of_edges G,
                             node_types = nts, edge_types = ets\<rparr>))))"

section \<open>\<open>PatternPropertyExplorer._apply_filter\<close> (search\_function.py)\<close>


definition filter_color ::
  "'f runtime \<Rightarrow> 'f graph_data \<Rightarrow> string \<Rightarrow> string \<Rightarrow> string \<Rightarrow> string \<Rightarrow> py_error + string" where
  \<comment> \<open>the body of the loop of \<open>_apply_filter\<close> for one node\<close>
  "filter_color rt pd ntype property_name filter_condition node =
     (case map_of (nodes pd) node of
        None \<Rightarrow> Inl KeyError
      | Some ni \<Rightarrow>
          let current_type = primary_type ni;
              property_value = dict_get (properties ni) property_name PNone
          in (case (if current_type = ntype \<and> property_value \<noteq> PNone
                    then evaluate_filter rt property_value filter_condition else Inr False) of
                Inl e \<Rightarrow> Inl e
              | Inr matches \<Rightarrow> Inr (if matches then ''#FFD700'' else ''#CCCCCC'')))"



section \<open>The pattern matcher \<open>create_pattern_visualization\<close> (Project files/app.py)\<close>

fun find_matching_nodes ::
  "(string \<times> 'f node_info) list \<Rightarrow> string \<Rightarrow> string \<Rightarrow> string list \<times> string list" where
  "find_matching_nodes [] type_a type_b = ([], [])"
| "find_matching_nodes ((node_id, ni) # rest) type_a type_b =
     (let (ma, mb) = find_matching_nodes rest type_a type_b
      in if primary_type ni = type_a then (node_id # ma, mb)
         else if primary_type ni = type_b then (ma, node_id # mb)
         else (ma, mb))"

definition find_matching_relationships ::
  "(string \<times> 'f rel_info) list \<Rightarrow> string \<Rightarrow> string list \<Rightarrow> string list \<Rightarrow>
   (string \<times> string \<times> 'f rel_info) list" where
  "find_matching_relationships rels rtype ma mb =
     map (\<lambda>(rel_id, ri). (start_node ri, end_node ri, ri))
       (filter (\<lambda>(rel_id, ri). rel_type ri = rtype \<and>
                   start_node ri \<in> set ma \<and> end_node ri \<in> set mb) rels)"

record 'f pattern_result =
  pattern_G :: "'f digraph"
  matching_nodes_a :: "string list"
  matching_nodes_b :: "string list"
  matching_relationships :: "(string \<times> string \<times> 'f rel_info) list"

text \<open>
  The nodes are added in the order of \<open>set(matching_nodes_a + matching_nodes_b)\<close>, which
  Python leaves open; the model takes the order of first occurrence.
\<close>

definition create_pattern_visualization ::
  "'f graph_data \<Rightarrow> string \<Rightarrow> string \<Rightarrow> string \<Rightarrow> py_error + 'f pattern_result" where
  "create_pattern_visualization gd type_a rtype type_b =
     (let (ma, mb) = find_matching_nodes (nodes gd) type_a type_b;
          mrels = find_matching_relationships (relationships gd) rtype ma mb
      in case foldM (\<lambda>node_id G.
                       case map_of (nodes gd) node_id of
                         None \<Rightarrow> Inl KeyError
                       | Some ni \<Rightarrow> add_payload_node (node_id, ni) G)
                    (remdups (ma @ mb)) empty_digraph of
           Inl e \<Rightarrow> Inl e
         | Inr G1 \<Rightarrow>
             (case foldM (\<lambda>(u, v, ri) G. add_payload_rel ([], ri) G) mrels G1 of
                Inl e \<Rightarrow> Inl e
              | Inr G2 \<Rightarrow>
                  Inr \<lparr>pattern_G = G2, matching_nodes_a = ma, matching_nodes_b = mb,
                       matching_relationships = mrels\<rparr>))"


section \<open>Predicates on payloads and example inputs\<close>

definition kwargs_ok :: "'f graph_data \<Rightarrow> bool" where
  \<comment> \<open>no property is named like a parameter of \<open>add_node\<close> or \<open>add_edge\<close>\<close>
  "kwargs_ok gd =
     (list_all (\<lambda>(node_id, ni). \<not> clash node_reserved (node_props ni)) (nodes gd) \<and>
      list_all (\<lambda>(rel_id, ri). \<not> clash edge_reserved (rel_properties ri)) (relationships gd))"

definition has_dangling_edge :: "'f graph_data \<Rightarrow> bool" where
  "has_dangling_edge gd =
     list_ex (\<lambda>(rel_id, ri). start_node ri \<notin> set (map fst (nodes gd)) \<or>
                              end_node ri \<notin> set (map fst (nodes gd))) (relationships gd)"

definition node_attrs :: "'f digraph \<Rightarrow> string \<Rightarrow> 'f attrs" where
  \<comment> \<open>\<open>G.nodes[node]\<close> for a node of the graph\<close>
  "node_attrs G n = dict_get (g_node G) n []"

definition gd_dangling :: "int graph_data" where
  "gd_dangling =
     \<lparr>nodes = [(''a'', \<lparr>labels = [''Person''], properties = []\<rparr>)],
      relationships = [(''r1'', \<lparr>rel_type = ''KNOWS'', rel_properties = [],
                                 start_node = ''a'', end_node = ''ghost''\<rparr>)]\<rparr>"

definition G_dangling :: "int digraph" where
  "G_dangling =
     \<lparr>g_node = [(''a'', [(''label'', PStr ''Person''), (''type'', PStr ''Person'')]), (''ghost'', [])],
      g_adj = [(''a'', [(''ghost'', [(''type'', PStr ''KNOWS'')])]), (''ghost'', [])]\<rparr>"

definition gd_parallel :: "int graph_data" where
  "gd_parallel =
     \<lparr>nodes = [(''p1'', \<lparr>labels = [''Person''], properties = [(''name'', PStr ''Clint'')]\<rparr>),
               (''m1'', \<lparr>labels = [''Movie''], properties = [(''year'', PInt 1992)]\<rparr>)],
      relationships = [(''r1'', \<lparr>rel_type = ''ACTED_IN'', rel_properties = [],
                                 start_node = ''p1'', end_node = ''m1''\<rparr>),
                       (''r2'', \<lparr>rel_type = ''DIRECTED'', rel_properties = [],
                                 start_node = ''p1'', end_node = ''m1''\<rparr>)]\<rparr>"

definition G_parallel :: "int digraph" where
  "G_parallel =
     \<lparr>g_node = [(''p1'', [(''label'', PStr ''Person''), (''type'', PStr ''Person''),
                          (''name'', PStr ''Clint'')]),
                (''m1'', [(''label'', PStr ''Movie''), (''type'', PStr ''Movie''),
                          (''year'', PInt 1992)])],
      g_adj = [(''p1'', [(''m1'', [(''type'', PStr ''DIRECTED'')])]), (''m1'', [])]\<rparr>"

definition gd_override :: "int graph_data" where
  "gd_override =
     \<lparr>nodes = [(''m1'', \<lparr>labels = [''Movie''], properties = [(''type'', PStr ''Person'')]\<rparr>)],
      relationships = []\<rparr>"

definition G_override :: "int digraph" where
  "G_override =
     \<lparr>g_node = [(''m1'', [(''label'', PStr ''Movie''), (''type'', PStr ''Person'')])],
      g_adj = [(''m1'', [])]\<rparr>"


definition add_nodes :: "(string \<times> 'f node_info) list \<Rightarrow> 'f digraph \<Rightarrow> 'f digraph" where
  \<comment> \<open>the first loop of \<open>_create_networkx_graph\<close> when no call raises\<close>
  "add_nodes ns G = fold (\<lambda>(node_id, ni) G. nx_add_node G node_id (node_props ni)) ns G"

definition add_rels :: "(string \<times> 'f rel_info) list \<Rightarrow> 'f digraph \<Rightarrow> 'f digraph" where
  \<comment> \<open>the second loop of \<open>_create_networkx_graph\<close> when no call raises\<close>
  "add_rels rs G = fold (\<lambda>(rel_id, ri) G. nx_add_edge G (start_node ri) (end_node ri)
                 ((''type'', PStr (rel_type ri)) # rel_properties ri)) rs G"

definition edge_type :: "'f digraph \<Rightarrow> string \<Rightarrow> string \<Rightarrow> 'f pyval option" where
  \<comment> \<open>\<open>G[u][v]["type"]\<close>, when the edge is there\<close>
  "edge_type G u v = (case edge_data G u v of None \<Rightarrow> None | Some d \<Rightarrow> map_of d ''type'')"

definition last_rel :: "(string \<times> 'f rel_info) list \<Rightarrow> string \<Rightarrow> string \<Rightarrow> 'f rel_info option" where
  \<comment> \<open>the last relationship of the payload from \<open>u\<close> to \<open>v\<close>\<close>
  "last_rel rs u v =
     (case filter (\<lambda>(rel_id, ri). start_node ri = u \<and> end_node ri = v) rs of
        [] \<Rightarrow> None
      | x # xs \<Rightarrow> Some (snd (last (x # xs))))"


definition participating :: "(string \<times> string \<times> 'f rel_info) list \<Rightarrow> string list" where
  \<comment> \<open>the end points of the matching (source, target, relationship) triples\<close>
  "participating mrels = concat (map (\<lambda>(u, v, ri). [u, v]) mrels)"

definition gd_same_type :: "int graph_data" where
  "gd_same_type =
     \<lparr>nodes = [(''p1'', \<lparr>labels = [''Person''], properties = []\<rparr>),
               (''p2'', \<lparr>labels = [''Person''], properties = []\<rparr>)],
      relationships = [(''r1'', \<lparr>rel_type = ''KNOWS'', rel_properties = [],
                                 start_node = ''p1'', end_node = ''p2''\<rparr>)]\<rparr>"

definition res_same_type :: "int pattern_result" where
  "res_same_type =
     \<lparr>pattern_G =
        \<lparr>g_node = [(''p1'', [(''label'', PStr ''Person''), (''type'', PStr ''Person'')]),
                   (''p2'', [(''label'', PStr ''Person''), (''type'', PStr ''Person'')])],
         g_adj = [(''p1'', []), (''p2'', [])]\<rparr>,
      matching_nodes_a = [''p1'', ''p2''],
      matching_nodes_b = [],
      matching_relationships = []\<rparr>"

text \<open>
  Two persons and a movie: \<open>p1\<close> acted in \<open>m1\<close>, \<open>p2\<close> directed it.
\<close>

definition gd_isolated :: "int graph_data" where
  "gd_isolated =
     \<lparr>nodes = [(''p1'', \<lparr>labels = [''Person''], properties = []\<rparr>),
               (''p2'', \<lparr>labels = [''Person''], properties = []\<rparr>),
               (''m1'', \<lparr>labels = [''Movie''], properties = []\<rparr>)],
      relationships = [(''r1'', \<lparr>rel_type = ''ACTED_IN'', rel_properties = [],
                                 start_node = ''p1'', end_node = ''m1''\<rparr>),
                       (''r2'', \<lparr>rel_type = ''DIRECTED'', rel_properties = [],
                                 start_node = ''p2'', end_node = ''m1''\<rparr>)]\<rparr>"

definition res_isolated :: "int pattern_result" where
  "res_isolated =
     \<lparr>pattern_G =
        \<lparr>g_node = [(''p1'', [(''label'', PStr ''Person''), (''type'', PStr ''Person'')]),
                   (''p2'', [(''label'', PStr ''Person''), (''type'', PStr ''Person'')]),
                   (''m1'', [(''label'', PStr ''Movie''), (''type'', PStr ''Movie'')])],
         g_adj = [(''p1'', [(''m1'', [(''type'', PStr ''ACTED_IN'')])]), (''p2'', []), (''m1'', [])]\<rparr>,
      matching_nodes_a = [''p1'', ''p2''],
      matching_nodes_b = [''m1''],
      matching_relationships =
        [(''p1'', ''m1'', \<lparr>rel_type = ''ACTED_IN'', rel_properties = [],
                            start_node = ''p1'', end_node = ''m1''\<rparr>)]\<rparr>"


definition add_ids :: "(string \<times> 'f node_info) list \<Rightarrow> string list \<Rightarrow> 'f digraph \<Rightarrow> 'f digraph" where
  \<comment> \<open>the node loop of the pattern matcher when no call raises\<close>
  "add_ids ns ids G =
     fold (\<lambda>node_id G. nx_add_node G node_id (node_props (the (map_of ns node_id)))) ids G"


definition hashable_types :: "'f digraph \<Rightarrow> bool" where
  \<comment> \<open>no \<open>type\<close> attribute of a node or an edge is a list\<close>
  "hashable_types G =
     (list_all (\<lambda>n. hashable (node_type G n)) (nodes_of G) \<and>
      list_all (\<lambda>(u, v, d). hashable (dict_get d ''type'' (PStr ''Unknown''))) (edges_of G))"

text \<open>
  A runtime for the examples.  Its floats are the integers, standing for the doubles of
  integral value; \<open>float(s)\<close> reads a string of decimal digits; dictionary keys are equal
  when the values are.
\<close>

definition digit_value :: "char \<Rightarrow> int" where
  "digit_value c =
     (case map_of (zip ''0123456789'' [0, 1, 2, 3, 4, 5, 6, 7, 8, 9]) c of
        None \<Rightarrow> 0 | Some d \<Rightarrow> d)"

definition int_of_digits :: "string \<Rightarrow> int" where
  "int_of_digits s = foldl (\<lambda>a c. 10 * a + digit_value c) 0 s"

fun join :: "string \<Rightarrow> string list \<Rightarrow> string" where
  "join sep [] = []"
| "join sep [x] = x"
| "join sep (x # y # ys) = x @ sep @ join sep (y # ys)"

fun example_repr :: "int pyval \<Rightarrow> string" where
  "example_repr PNone = ''None''"
| "example_repr (PBool b) = (if b then ''True'' else ''False'')"
| "example_repr (PInt i) = str_int i"
| "example_repr (PFloat x) = str_int x @ ''.0''"
| "example_repr (PStr s) = [CHR 0x27] @ s @ [CHR 0x27]"
| "example_repr (PList xs) = ''['' @ join '', '' (map example_repr xs) @ '']''"

definition example_runtime :: "int runtime" where
  "example_runtime =
     \<lparr>str_float = (\<lambda>x. str_int x @ ''.0''),
      str_list = (\<lambda>xs. ''['' @ join '', '' (map example_repr xs) @ '']''),
      float_of_int = Some,
      float_of_str = (\<lambda>s. if isdigit s then Some (int_of_digits s) else None),
      float_eq = (=),
      float_lt = (<),
      key_eq = (=)\<rparr>"

section \<open>Searchable values and example states\<close>

definition searchable :: "'f digraph \<Rightarrow> string \<Rightarrow> bool" where
  \<comment> \<open>the node has an attribute value that is an instance of \<open>str\<close>, \<open>int\<close> or \<open>float\<close>\<close>
  "searchable G n = list_ex is_str_int_float (map snd (node_attrs G n))"

definition gold :: string where
  "gold = ''#FFD700''"

text \<open>
  A plotter on the graph of \<open>gd_parallel\<close> after \<open>create_visualization\<close>, which fills
  the colour column with the colours of \<open>_get_node_styling\<close>; the same plotter before
  \<open>create_visualization\<close>, without renderer; and a plotter on the graph of
  \<open>gd_dangling\<close>, whose node \<open>ghost\<close> has no attribute.
\<close>

definition plotter_parallel :: "int plotter" where
  "plotter_parallel =
     \<lparr>plotter_G = G_parallel,
      graph_renderer = Some \<lparr>data_color = [''#31a354'', ''#3182bd'']\<rparr>\<rparr>"

definition plotter_unrendered :: "int plotter" where
  "plotter_unrendered = \<lparr>plotter_G = G_parallel, graph_renderer = None\<rparr>"

definition plotter_dangling :: "int plotter" where
  "plotter_dangling =
     \<lparr>plotter_G = G_dangling,
      graph_renderer = Some \<lparr>data_color = [''#31a354'', ''#756bb1'']\<rparr>\<rparr>"




section \<open>\<open>parse_filter_condition\<close> (Project files/app.py)\<close>

text \<open>
  The variant of \<open>_evaluate_filter\<close> in the single-file application.  It has no test for
  the empty condition, takes the equality branch only when the condition contains
  \<open>==\<close>, and its numeric branch tests \<open>">" in\<close>, \<open>"<" in\<close>, \<open>">=" in\<close> and
  \<open>"<=" in\<close> in this order.  \<open>x >= y\<close> on floats is \<open>y < x or x == y\<close>.
\<close>

definition split_second :: "'f runtime \<Rightarrow> string \<Rightarrow> string \<Rightarrow> py_error + 'f" where
  \<comment> \<open>\<open>float(filter_str.split(sep)[1].strip())\<close>\<close>
  "split_second rt fs sep =
     (case py_index (py_split fs sep) 1 of
        Inl e \<Rightarrow> Inl e
      | Inr part \<Rightarrow> py_float rt (PStr (strip part)))"

definition parse_numeric :: "'f runtime \<Rightarrow> 'f pyval \<Rightarrow> string \<Rightarrow> py_error + bool" where
  "parse_numeric rt value_str fs =
     (case py_float rt value_str of
        Inl e \<Rightarrow> Inl e
      | Inr v \<Rightarrow>
          if py_in ''>'' fs then
            (case split_second rt fs ''>'' of Inl e \<Rightarrow> Inl e | Inr t \<Rightarrow> Inr (float_lt rt t v))
          else if py_in ''<'' fs then
            (case split_second rt fs ''<'' of Inl e \<Rightarrow> Inl e | Inr t \<Rightarrow> Inr (float_lt rt v t))
          else if py_in ''>='' fs then
            (case split_second rt fs ''>='' of
               Inl e \<Rightarrow> Inl e | Inr t \<Rightarrow> Inr (float_lt rt t v \<or> float_eq rt v t))
          else if py_in ''<='' fs then
            (case split_second rt fs ''<='' of
               Inl e \<Rightarrow> Inl e | Inr t \<Rightarrow> Inr (float_lt rt v t \<or> float_eq rt v t))
          else Inr True)"

definition parse_filter_condition :: "'f runtime \<Rightarrow> 'f pyval \<Rightarrow> string \<Rightarrow> py_error + bool" where
  "parse_filter_condition rt value_str filter_str =
     (let fs = lower (strip filter_str) in
      if py_in ''contains'' fs then
        (case py_index (py_split fs ''contains'') 1 of
           Inl e \<Rightarrow> Inl e
         | Inr part \<Rightarrow>
             let search_term = strip_chars (strip part) quotes
             in Inr (is_str value_str \<and> py_in (lower search_term) (lower (py_str rt value_str))))
      else if py_in ''=='' fs then
        (case py_index (py_split fs ''=='') 1 of
           Inl e \<Rightarrow> Inl e
         | Inr part \<Rightarrow>
             let compare_value = strip_chars (strip part) quotes
             in Inr (except_False (equality_comparison rt value_str compare_value)))
      else Inr (except_False (parse_numeric rt value_str fs)))"

definition leftover :: "string \<Rightarrow> string" where
  \<comment> \<open>\<open>compare_value\<close> of the equality branch of \<open>_evaluate_filter\<close>\<close>
  "leftover filter_condition =
     strip_chars (strip (py_replace (py_replace (lower (strip filter_condition)) ''=='' []) ''='' []))
                 quotes"

section \<open>Building the graph\<close>

lemma foldM_Inr_fold:
  "(\<And>x s. x \<in> set xs \<Longrightarrow> f x s = Inr (g x s)) \<Longrightarrow> foldM f xs s = Inr (fold g xs s)"
  by (induction xs arbitrary: s) auto

lemma create_networkx_graph_ok:
  assumes "kwargs_ok gd"
  shows "create_networkx_graph gd = Inr (add_rels (relationships gd) (add_nodes (nodes gd) empty_digraph))"
proof -
  have n: "foldM add_payload_node (nodes gd) s =
        Inr (fold (\<lambda>(node_id, ni) G. nx_add_node G node_id (node_props ni)) (nodes gd) s)" for s
    using assms by (intro foldM_Inr_fold) (auto simp: kwargs_ok_def list_all_iff add_payload_node_def)
  have r: "foldM add_payload_rel (relationships gd) s =
        Inr (fold (\<lambda>(rel_id, ri) G. nx_add_edge G (start_node ri) (end_node ri)
                 ((''type'', PStr (rel_type ri)) # rel_properties ri)) (relationships gd) s)" for s
    using assms by (intro foldM_Inr_fold) (auto simp: kwargs_ok_def list_all_iff add_payload_rel_def)
  show ?thesis by (simp add: create_networkx_graph_def n r add_rels_def add_nodes_def)
qed

lemma add_payload_node_error: "add_payload_node x s = Inl e \<Longrightarrow> e = TypeError"
  by (cases x) (simp add: add_payload_node_def split: if_splits)

lemma add_payload_rel_error: "add_payload_rel x s = Inl e \<Longrightarrow> e = TypeError"
  by (cases x) (simp add: add_payload_rel_def split: if_splits)

lemma foldM_node_error: "foldM add_payload_node xs s = Inl e \<Longrightarrow> e = TypeError"
  by (induction xs arbitrary: s) (auto split: sum.splits dest: add_payload_node_error)

lemma foldM_rel_error: "foldM add_payload_rel xs s = Inl e \<Longrightarrow> e = TypeError"
  by (induction xs arbitrary: s) (auto split: sum.splits dest: add_payload_rel_error)

lemma create_networkx_graph_error:
  assumes "create_networkx_graph gd = Inl e"
  shows "e = TypeError"
proof (cases "foldM add_payload_node (nodes gd) empty_digraph")
  case (Inl e')
  with assms have "e' = e" by (simp add: create_networkx_graph_def)
  with Inl show ?thesis using foldM_node_error by blast
next
  case (Inr G1)
  with assms have "foldM add_payload_rel (relationships gd) G1 = Inl e"
    by (simp add: create_networkx_graph_def)
  then show ?thesis using foldM_rel_error by blast
qed

subsection \<open>Dictionaries\<close>

lemma dict_update_Nil [simp]: "dict_update d [] = d"
  by (simp add: dict_update_def)

lemma dict_update_Cons: "dict_update d ((k, v) # e) = dict_update (AList.update k v d) e"
  by (simp add: dict_update_def)

lemma keys_dict_update: "fst ` set (dict_update d e) = fst ` set d \<union> fst ` set e"
proof (induction e arbitrary: d)
  case Nil
  show ?case by simp
next
  case (Cons x e)
  obtain k v where x: "x = (k, v)" by (cases x)
  show ?case unfolding x dict_update_Cons Cons.IH dom_update by auto
qed

lemma map_of_dict_update_notin:
  "k \<notin> fst ` set e \<Longrightarrow> map_of (dict_update d e) k = map_of d k"
  by (induction e arbitrary: d) (auto simp: dict_update_Cons update_conv')

subsection \<open>Nodes and edges of the graph\<close>

lemma map_of_node_add_node:
  "map_of (g_node (nx_add_node G n a)) m =
     (if m = n then Some (dict_update (case map_of (g_node G) n of None \<Rightarrow> [] | Some old \<Rightarrow> old) a)
      else map_of (g_node G) m)"
  by (auto simp: nx_add_node_def update_conv' map_add_def split: option.splits)

lemma nbrs_add_node [simp]:
  "dict_get (g_adj (nx_add_node G n a)) m [] = dict_get (g_adj G) m []"
  by (simp add: nx_add_node_def dict_get_def map_add_def split: option.splits)

lemma edge_data_alt: "edge_data G u v = map_of (dict_get (g_adj G) u []) v"
  by (simp add: edge_data_def dict_get_def split: option.splits)

lemma has_edge_edge_data: "has_edge G u v \<longleftrightarrow> edge_data G u v \<noteq> None"
  by (simp add: has_edge_def edge_data_def split: option.splits)

lemma edge_data_add_node [simp]: "edge_data (nx_add_node G n a) u v = edge_data G u v"
  by (simp add: edge_data_alt)

lemma map_of_node_add_edge:
  "map_of (g_node (nx_add_edge G u v a)) m =
     (case map_of (g_node G) m of Some old \<Rightarrow> Some old
      | None \<Rightarrow> if m = u \<or> m = v then Some [] else None)"
  by (simp add: nx_add_edge_def Let_def map_of_node_add_node split: option.splits)

lemma dict_get_update: "dict_get (AList.update k X al) x d = (if x = k then X else dict_get al x d)"
  by (simp add: dict_get_def update_conv')

lemma nbrs_add_edge:
  "dict_get (g_adj (nx_add_edge G u v a)) x [] =
     (if x = u then AList.update v (dict_update (dict_get (dict_get (g_adj G) u []) v []) a)
                      (dict_get (g_adj G) u [])
      else dict_get (g_adj G) x [])"
  by (simp add: nx_add_edge_def Let_def dict_get_update)

lemma dict_get_edge_data: "dict_get (dict_get (g_adj G) u []) v [] = (case edge_data G u v of None \<Rightarrow> [] | Some d \<Rightarrow> d)"
  by (simp add: edge_data_alt dict_get_def[of "dict_get (g_adj G) u []"])

lemma edge_data_add_edge:
  "edge_data (nx_add_edge G u v a) x y =
     (if x = u \<and> y = v then Some (dict_update (case edge_data G u v of None \<Rightarrow> [] | Some d \<Rightarrow> d) a)
      else edge_data G x y)"
  unfolding dict_get_edge_data[symmetric]
  by (simp add: edge_data_alt nbrs_add_edge update_conv')


lemma in_nodes_of: "n \<in> set (nodes_of G) \<longleftrightarrow> map_of (g_node G) n \<noteq> None"
  by (simp add: nodes_of_def map_of_eq_None_iff)

subsection \<open>The two loops of the build\<close>

lemma add_rels_Nil [simp]: "add_rels [] G = G"
  by (simp add: add_rels_def)

lemma add_rels_Cons: "add_rels ((rid, ri) # rs) G =
   add_rels rs (nx_add_edge G (start_node ri) (end_node ri) ((''type'', PStr (rel_type ri)) # rel_properties ri))"
  by (simp add: add_rels_def)

lemma add_nodes_Nil [simp]: "add_nodes [] G = G"
  by (simp add: add_nodes_def)

lemma add_nodes_Cons: "add_nodes ((i, ni) # ns) G = add_nodes ns (nx_add_node G i (node_props ni))"
  by (simp add: add_nodes_def)

lemma edge_data_add_nodes [simp]: "edge_data (add_nodes ns G) u v = edge_data G u v"
  by (induction ns arbitrary: G) (auto simp: add_nodes_Cons)

lemma node_add_nodes_iff:
  "map_of (g_node (add_nodes ns G)) m \<noteq> None \<longleftrightarrow> m \<in> fst ` set ns \<or> map_of (g_node G) m \<noteq> None"
proof (induction ns arbitrary: G)
  case Nil
  show ?case by simp
next
  case (Cons x ns)
  obtain i ni where x: "x = (i, ni)" by (cases x)
  show ?case unfolding x add_nodes_Cons Cons.IH by (auto simp: map_of_node_add_node)
qed

lemma node_add_rels:
  "map_of (g_node (add_rels rs G)) m =
     (case map_of (g_node G) m of Some old \<Rightarrow> Some old
      | None \<Rightarrow> if m \<in> (start_node \<circ> snd) ` set rs \<or> m \<in> (end_node \<circ> snd) ` set rs then Some [] else None)"
proof (induction rs arbitrary: G)
  case Nil
  show ?case by (simp split: option.splits)
next
  case (Cons x rs)
  obtain rid ri where x: "x = (rid, ri)" by (cases x)
  show ?case unfolding x add_rels_Cons Cons.IH
    by (auto simp: map_of_node_add_edge split: option.splits)
qed

lemma has_edge_add_rels:
  "has_edge (add_rels rs G) u v \<longleftrightarrow>
     has_edge G u v \<or> (\<exists>(rid, ri) \<in> set rs. start_node ri = u \<and> end_node ri = v)"
proof (induction rs arbitrary: G)
  case Nil
  show ?case by simp
next
  case (Cons x rs)
  obtain rid ri where x: "x = (rid, ri)" by (cases x)
  show ?case unfolding x add_rels_Cons Cons.IH
    by (auto simp: has_edge_edge_data edge_data_add_edge)
qed

lemma has_edge_empty [simp]: "\<not> has_edge empty_digraph u v"
  by (simp add: has_edge_def empty_digraph_def)

lemma node_empty [simp]: "map_of (g_node empty_digraph) m = None"
  by (simp add: empty_digraph_def)

section \<open>What the build guarantees\<close>

lemma no_clash_type: "\<not> clash edge_reserved props \<Longrightarrow> ''type'' \<notin> fst ` set props"
  by (auto simp: clash_def edge_reserved_def list_ex_iff)

lemma edge_type_add_node [simp]: "edge_type (nx_add_node G n a) u v = edge_type G u v"
  by (simp add: edge_type_def)

lemma edge_type_add_edge:
  assumes "''type'' \<notin> fst ` set props"
  shows "edge_type (nx_add_edge G u v ((''type'', PStr t) # props)) x y =
           (if x = u \<and> y = v then Some (PStr t) else edge_type G x y)"
  using assms
  by (simp add: edge_type_def edge_data_add_edge dict_update_Cons map_of_dict_update_notin update_conv')

lemma last_rel_Nil [simp]: "last_rel [] u v = None"
  by (simp add: last_rel_def)

lemma last_rel_Cons:
  "last_rel ((rid, ri) # rs) u v =
     (case last_rel rs u v of
        Some r \<Rightarrow> Some r
      | None \<Rightarrow> if start_node ri = u \<and> end_node ri = v then Some ri else None)"
  by (auto simp: last_rel_def split: list.splits)

lemma edge_type_add_rels:
  assumes "\<forall>(rid, ri) \<in> set rs. ''type'' \<notin> fst ` set (rel_properties ri)"
  shows "edge_type (add_rels rs G) u v =
           (case last_rel rs u v of None \<Rightarrow> edge_type G u v | Some ri \<Rightarrow> Some (PStr (rel_type ri)))"
  using assms
proof (induction rs arbitrary: G)
  case Nil
  show ?case by simp
next
  case (Cons x rs)
  obtain rid ri where x: "x = (rid, ri)" by (cases x)
  from Cons.prems have t: "''type'' \<notin> fst ` set (rel_properties ri)"
    and rest: "\<forall>(rid, ri) \<in> set rs. ''type'' \<notin> fst ` set (rel_properties ri)"
    by (auto simp: x)
  show ?case unfolding x add_rels_Cons Cons.IH[OF rest] last_rel_Cons
    by (simp add: edge_type_add_edge[OF t] split: option.splits)
qed

lemma edge_data_empty [simp]: "edge_data empty_digraph u v = None"
  by (simp add: edge_data_def empty_digraph_def)

lemma kwargs_ok_rels:
  assumes "kwargs_ok gd"
  shows "\<forall>(rid, ri) \<in> set (relationships gd). ''type'' \<notin> fst ` set (rel_properties ri)"
proof -
  have "''type'' \<notin> fst ` set (rel_properties ri)" if "(rid, ri) \<in> set (relationships gd)" for rid ri
  proof -
    from assms that have "\<not> clash edge_reserved (rel_properties ri)"
      by (auto simp: kwargs_ok_def list_all_iff)
    then show ?thesis by (rule no_clash_type)
  qed
  then show ?thesis by blast
qed

text \<open>
  Claim C3, as the code has it: the build has no check for dangling edges.  When no
  property name clashes with a keyword parameter the build succeeds, every relationship of
  the payload is an edge of the graph with both end points among its nodes, and an end
  point that the payload does not list is a node without attributes.  (The only error
  of the build is \<open>TypeError\<close>: lemma \<open>create_networkx_graph_error\<close>.)
\<close>

theorem C3_dangling_edge_is_materialized:
  assumes "kwargs_ok gd"
  shows "\<exists>G. create_networkx_graph gd = Inr G \<and>
           (\<forall>(rid, ri) \<in> set (relationships gd).
               has_edge G (start_node ri) (end_node ri) \<and>
               start_node ri \<in> set (nodes_of G) \<and> end_node ri \<in> set (nodes_of G)) \<and>
           (\<forall>n \<in> set (nodes_of G). n \<notin> fst ` set (nodes gd) \<longrightarrow> node_attrs G n = [])"
proof -
  let ?G1 = "add_nodes (nodes gd) empty_digraph"
  let ?G = "add_rels (relationships gd) ?G1"
  have build: "create_networkx_graph gd = Inr ?G"
    by (rule create_networkx_graph_ok[OF assms])
  have edges: "has_edge ?G (start_node ri) (end_node ri) \<and>
               start_node ri \<in> set (nodes_of ?G) \<and> end_node ri \<in> set (nodes_of ?G)"
    if "(rid, ri) \<in> set (relationships gd)" for rid ri
  proof -
    have "has_edge ?G (start_node ri) (end_node ri)"
      unfolding has_edge_add_rels using that by blast
    moreover have "start_node ri \<in> (start_node \<circ> snd) ` set (relationships gd)"
      using that by force
    then have "start_node ri \<in> set (nodes_of ?G)"
      by (simp add: in_nodes_of node_add_rels split: option.splits)
    moreover have "end_node ri \<in> (end_node \<circ> snd) ` set (relationships gd)"
      using that by force
    then have "end_node ri \<in> set (nodes_of ?G)"
      by (simp add: in_nodes_of node_add_rels split: option.splits)
    ultimately show ?thesis by simp
  qed
  have ghosts: "node_attrs ?G n = []" if "n \<in> set (nodes_of ?G)" "n \<notin> fst ` set (nodes gd)" for n
  proof -
    from that(2) have "map_of (g_node ?G1) n = None"
      using node_add_nodes_iff[of "nodes gd" empty_digraph n] by simp
    with that(1) show ?thesis
      by (simp add: in_nodes_of node_attrs_def dict_get_def node_add_rels split: if_splits)
  qed
  from build edges ghosts show ?thesis by blast
qed

lemma foldM_add_payload_rel_ids:
  "map snd rs' = map snd rs \<Longrightarrow> foldM add_payload_rel rs' G = foldM add_payload_rel rs G"
proof (induction rs arbitrary: rs' G)
  case Nil
  then show ?case by simp
next
  case (Cons x rs)
  from Cons.prems obtain y ys where rs': "rs' = y # ys" and y: "snd y = snd x"
    and ys: "map snd ys = map snd rs"
    by (cases rs') auto
  obtain rid ri where x: "x = (rid, ri)" by (cases x)
  with y obtain rid' where y': "y = (rid', ri)" by (cases y) auto
  show ?case
    unfolding rs' x y' using Cons.IH[OF ys]
    by (simp add: add_payload_rel_def)
qed

lemma create_networkx_graph_ids:
  "map snd rs' = map snd (relationships gd) \<Longrightarrow>
   create_networkx_graph (gd\<lparr>relationships := rs'\<rparr>) = create_networkx_graph gd"
  using foldM_add_payload_rel_ids[of rs' "relationships gd"]
  by (simp add: create_networkx_graph_def split: sum.splits)

text \<open>
  Claim C4, as the code has it: when no property name clashes with a keyword parameter
  the build succeeds, every node id of the payload is a node of the graph, the edges of
  the graph are exactly the (source, target) pairs of the payload's relationships, and
  the \<open>type\<close> of an edge is that of the last relationship of the payload on this pair,
  so parallel relationships share one edge.  Relationship ids are not stored: the payload
  with any other relationship ids builds the same graph.
\<close>

theorem C4_build_collapses_parallel_edges:
  assumes "kwargs_ok gd"
  shows "\<exists>G. create_networkx_graph gd = Inr G \<and>
           fst ` set (nodes gd) \<subseteq> set (nodes_of G) \<and>
           (\<forall>u v. has_edge G u v \<longleftrightarrow>
                    (\<exists>(rid, ri) \<in> set (relationships gd). start_node ri = u \<and> end_node ri = v)) \<and>
           (\<forall>u v ri. last_rel (relationships gd) u v = Some ri \<longrightarrow>
                    edge_type G u v = Some (PStr (rel_type ri))) \<and>
           (\<forall>rs'. map snd rs' = map snd (relationships gd) \<longrightarrow>
                    create_networkx_graph (gd\<lparr>relationships := rs'\<rparr>) = Inr G)"
proof -
  let ?G1 = "add_nodes (nodes gd) empty_digraph"
  let ?G = "add_rels (relationships gd) ?G1"
  have build: "create_networkx_graph gd = Inr ?G"
    by (rule create_networkx_graph_ok[OF assms])
  have n: "fst ` set (nodes gd) \<subseteq> set (nodes_of ?G)"
  proof
    fix m assume "m \<in> fst ` set (nodes gd)"
    then have "map_of (g_node ?G1) m \<noteq> None"
      using node_add_nodes_iff[of "nodes gd" empty_digraph m] by blast
    then show "m \<in> set (nodes_of ?G)"
      by (auto simp: in_nodes_of node_add_rels)
  qed
  have "\<not> has_edge ?G1 u v" for u v
    by (simp add: has_edge_edge_data)
  then have e: "has_edge ?G u v \<longleftrightarrow>
        (\<exists>(rid, ri) \<in> set (relationships gd). start_node ri = u \<and> end_node ri = v)" for u v
    by (simp add: has_edge_add_rels)
  have t: "edge_type ?G u v = Some (PStr (rel_type ri))"
    if "last_rel (relationships gd) u v = Some ri" for u v ri
    using that by (simp add: edge_type_add_rels[OF kwargs_ok_rels[OF assms]])
  have i: "create_networkx_graph (gd\<lparr>relationships := rs'\<rparr>) = Inr ?G"
    if "map snd rs' = map snd (relationships gd)" for rs'
    using that build by (simp add: create_networkx_graph_ids)
  from build n e t i show ?thesis by blast
qed

section \<open>The build on concrete payloads\<close>

lemmas build_defs =
  create_networkx_graph_def add_payload_node_def add_payload_rel_def clash_def
  node_reserved_def edge_reserved_def node_props_def primary_type_def dict_update_def
  nx_add_node_def nx_add_edge_def empty_digraph_def dict_get_def Let_def

lemma build_dangling: "create_networkx_graph gd_dangling = Inr G_dangling"
  by (simp add: gd_dangling_def G_dangling_def build_defs)

lemma build_parallel: "create_networkx_graph gd_parallel = Inr G_parallel"
  by (simp add: gd_parallel_def G_parallel_def build_defs)

lemma build_override: "create_networkx_graph gd_override = Inr G_override"
  by (simp add: gd_override_def G_override_def build_defs)

lemma kwargs_ok_dangling: "kwargs_ok gd_dangling"
  by (simp add: kwargs_ok_def gd_dangling_def build_defs)

lemma kwargs_ok_parallel: "kwargs_ok gd_parallel"
  by (simp add: kwargs_ok_def gd_parallel_def build_defs)

text \<open>
  Claim C3 fails as stated: a payload whose only relationship ends at the missing id
  \<open>ghost\<close> builds without error, and \<open>ghost\<close> is a node of the graph.
\<close>

theorem C3_counterexample:
  "has_dangling_edge gd_dangling \<and> create_networkx_graph gd_dangling = Inr G_dangling \<and>
   nodes_of G_dangling = [''a'', ''ghost''] \<and>
   edges_of G_dangling = [(''a'', ''ghost'', [(''type'', PStr ''KNOWS'')])]"
  by (simp add: build_dangling)
     (simp add: has_dangling_edge_def gd_dangling_def G_dangling_def nodes_of_def edges_of_def)

text \<open>The theorem of C3 at the payload with the dangling edge.\<close>

theorem C3_witness:
  "kwargs_ok gd_dangling \<and> has_dangling_edge gd_dangling \<and>
   create_networkx_graph gd_dangling = Inr G_dangling \<and>
   has_edge G_dangling ''a'' ''ghost'' \<and> ''ghost'' \<in> set (nodes_of G_dangling) \<and>
   node_attrs G_dangling ''ghost'' = []"
proof -
  from C3_dangling_edge_is_materialized[OF kwargs_ok_dangling] obtain G where
    G: "create_networkx_graph gd_dangling = Inr G"
    and e: "\<forall>(rid, ri) \<in> set (relationships gd_dangling).
               has_edge G (start_node ri) (end_node ri) \<and>
               start_node ri \<in> set (nodes_of G) \<and> end_node ri \<in> set (nodes_of G)"
    and g: "\<forall>n \<in> set (nodes_of G). n \<notin> fst ` set (nodes gd_dangling) \<longrightarrow> node_attrs G n = []"
    by blast
  from G have eq: "G = G_dangling" by (simp add: build_dangling)
  from e have 1: "has_edge G ''a'' ''ghost'' \<and> ''ghost'' \<in> set (nodes_of G)"
    by (simp add: gd_dangling_def)
  with g have 2: "node_attrs G ''ghost'' = []"
    by (simp add: gd_dangling_def)
  have "has_dangling_edge gd_dangling"
    by (simp add: has_dangling_edge_def gd_dangling_def)
  with 1 2 show ?thesis unfolding eq by (simp add: kwargs_ok_dangling build_dangling)
qed

text \<open>
  Claim C4 fails as stated: two relationships \<open>r1\<close> and \<open>r2\<close> of different types between
  the same two nodes, in a payload without duplicate ids or dangling edges, leave one edge
  in the graph, of the type of \<open>r2\<close>.
\<close>

theorem C4_counterexample:
  "\<not> has_dangling_edge gd_parallel \<and> distinct (map fst (nodes gd_parallel)) \<and>
   distinct (map fst (relationships gd_parallel)) \<and>
   length (relationships gd_parallel) = 2 \<and>
   create_networkx_graph gd_parallel = Inr G_parallel \<and>
   number_of_edges G_parallel = 1 \<and>
   edges_of G_parallel = [(''p1'', ''m1'', [(''type'', PStr ''DIRECTED'')])]"
  by (simp add: build_parallel)
     (simp add: has_dangling_edge_def gd_parallel_def G_parallel_def number_of_edges_def edges_of_def)

text \<open>
  The theorem of C4 at the payload with the two parallel relationships, and at the same
  payload with the relationship ids \<open>x\<close> and \<open>y\<close> in place of \<open>r1\<close> and \<open>r2\<close>.
\<close>

theorem C4_witness:
  "kwargs_ok gd_parallel \<and> create_networkx_graph gd_parallel = Inr G_parallel \<and>
   ''p1'' \<in> set (nodes_of G_parallel) \<and> ''m1'' \<in> set (nodes_of G_parallel) \<and>
   has_edge G_parallel ''p1'' ''m1'' \<and> \<not> has_edge G_parallel ''m1'' ''p1'' \<and>
   edge_type G_parallel ''p1'' ''m1'' = Some (PStr ''DIRECTED'') \<and>
   create_networkx_graph
     (gd_parallel\<lparr>relationships :=
        [(''x'', \<lparr>rel_type = ''ACTED_IN'', rel_properties = [],
                  start_node = ''p1'', end_node = ''m1''\<rparr>),
         (''y'', \<lparr>rel_type = ''DIRECTED'', rel_properties = [],
                  start_node = ''p1'', end_node = ''m1''\<rparr>)]\<rparr>) = Inr G_parallel"
proof -
  let ?rs = "[(''x'', \<lparr>rel_type = ''ACTED_IN'', rel_properties = [],
                       start_node = ''p1'', end_node = ''m1''\<rparr>),
              (''y'', \<lparr>rel_type = ''DIRECTED'', rel_properties = [],
                       start_node = ''p1'', end_node = ''m1''\<rparr>)] :: (string \<times> int rel_info) list"
  from C4_build_collapses_parallel_edges[OF kwargs_ok_parallel] obtain G where
    G: "create_networkx_graph gd_parallel = Inr G"
    and n: "fst ` set (nodes gd_parallel) \<subseteq> set (nodes_of G)"
    and e: "\<forall>u v. has_edge G u v \<longleftrightarrow>
                    (\<exists>(rid, ri) \<in> set (relationships gd_parallel). start_node ri = u \<and> end_node ri = v)"
    and t: "\<forall>u v ri. last_rel (relationships gd_parallel) u v = Some ri \<longrightarrow>
                    edge_type G u v = Some (PStr (rel_type ri))"
    and i: "\<forall>rs'. map snd rs' = map snd (relationships gd_parallel) \<longrightarrow>
                    create_networkx_graph (gd_parallel\<lparr>relationships := rs'\<rparr>) = Inr G"
    by blast
  from G have eq: "G = G_parallel" by (simp add: build_parallel)
  from n have 1: "''p1'' \<in> set (nodes_of G) \<and> ''m1'' \<in> set (nodes_of G)"
    by (simp add: gd_parallel_def)
  from e have 2: "has_edge G ''p1'' ''m1'' \<and> \<not> has_edge G ''m1'' ''p1''"
    by (simp add: gd_parallel_def)
  have "last_rel (relationships gd_parallel) ''p1'' ''m1'' =
          Some \<lparr>rel_type = ''DIRECTED'', rel_properties = [], start_node = ''p1'', end_node = ''m1''\<rparr>"
    by (simp add: last_rel_def gd_parallel_def)
  with t have 3: "edge_type G ''p1'' ''m1'' = Some (PStr ''DIRECTED'')"
    by fastforce
  have "map snd ?rs = map snd (relationships gd_parallel)"
    by (simp add: gd_parallel_def)
  with i have 4: "create_networkx_graph (gd_parallel\<lparr>relationships := ?rs\<rparr>) = Inr G"
    by blast
  from 1 2 3 4 show ?thesis unfolding eq by (simp add: kwargs_ok_parallel build_parallel)
qed

text \<open>
  Claim C5, at the failing input: a node labelled \<open>Movie\<close> with a property named
  \<open>type\<close> of value \<open>Person\<close>.  \<open>node_props.update(node_info["properties"])\<close> runs
  after the \<open>type\<close> entry is set, so the graph's \<open>type\<close> attribute is \<open>Person\<close>, and
  the node is styled as a person, while its first label is \<open>Movie\<close>.
\<close>

theorem C5_type_overridden_by_property:
  "primary_type \<lparr>labels = [''Movie''], properties = [(''type'', PStr ''Person'')]\<rparr> = ''Movie'' \<and>
   create_networkx_graph gd_override = Inr G_override \<and>
   node_type G_override ''m1'' = PStr ''Person'' \<and>
   get_node_styling G_override = Inr ([''#31a354''], [8])"
  by (simp add: build_override)
     (simp add: primary_type_def G_override_def node_type_def dict_get_def get_node_styling_def
        nodes_of_def style_of_def)

section \<open>The pattern matcher\<close>

lemma find_matching_nodes_sets:
  "set (fst (find_matching_nodes ns type_a type_b)) =
     {node_id. \<exists>ni. (node_id, ni) \<in> set ns \<and> primary_type ni = type_a}"
  "set (snd (find_matching_nodes ns type_a type_b)) =
     {node_id. \<exists>ni. (node_id, ni) \<in> set ns \<and> primary_type ni \<noteq> type_a \<and> primary_type ni = type_b}"
  by (induction ns type_a type_b rule: find_matching_nodes.induct)
     (auto split: prod.splits)

lemma same_type_second_partition_empty:
  "snd (find_matching_nodes ns t t) = []"
  by (induction ns t t rule: find_matching_nodes.induct) (auto split: prod.splits)

lemma same_type_no_match:
  "find_matching_relationships rels rtype ma (snd (find_matching_nodes ns t t)) = []"
  by (simp add: same_type_second_partition_empty find_matching_relationships_def)

lemma foldM_rel_triples:
  "foldM (\<lambda>(u, v, ri) G. add_payload_rel ([], ri) G) mrels G =
   foldM add_payload_rel (map (\<lambda>(u, v, ri). ([], ri)) mrels) G"
  by (induction mrels arbitrary: G) (auto split: sum.splits)

lemma foldM_add_payload_rel_ok:
  assumes "\<forall>(rid, ri) \<in> set rs. \<not> clash edge_reserved (rel_properties ri)"
  shows "foldM add_payload_rel rs G = Inr (add_rels rs G)"
  unfolding add_rels_def
  using assms by (intro foldM_Inr_fold) (auto simp: add_payload_rel_def)

lemma foldM_ids_ok:
  assumes "list_all (\<lambda>(node_id, ni). \<not> clash node_reserved (node_props ni)) ns"
    and "set ids \<subseteq> fst ` set ns"
  shows "foldM (\<lambda>node_id G. case map_of ns node_id of None \<Rightarrow> Inl KeyError
                              | Some ni \<Rightarrow> add_payload_node (node_id, ni) G) ids G
         = Inr (add_ids ns ids G)"
  unfolding add_ids_def
proof (intro foldM_Inr_fold)
  fix x s assume "x \<in> set ids"
  with assms(2) obtain ni where ni: "map_of ns x = Some ni"
    by (metis subsetD map_of_eq_None_iff not_Some_eq)
  then have "(x, ni) \<in> set ns" by (rule map_of_SomeD)
  with assms(1) have "\<not> clash node_reserved (node_props ni)"
    by (auto simp: list_all_iff)
  with ni show "(case map_of ns x of None \<Rightarrow> Inl KeyError | Some ni \<Rightarrow> add_payload_node (x, ni) s)
        = Inr (nx_add_node s x (node_props (the (map_of ns x))))"
    by (simp add: add_payload_node_def)
qed

lemma node_add_ids_iff:
  "map_of (g_node (add_ids ns ids G)) m \<noteq> None \<longleftrightarrow> m \<in> set ids \<or> map_of (g_node G) m \<noteq> None"
  unfolding add_ids_def
  by (induction ids arbitrary: G) (auto simp: map_of_node_add_node)

lemma edge_data_add_ids [simp]: "edge_data (add_ids ns ids G) u v = edge_data G u v"
  unfolding add_ids_def
  by (induction ids arbitrary: G) auto

section \<open>What the pattern matcher builds\<close>

text \<open>
  When no property name clashes with a keyword parameter, the matcher returns: the first
  partition holds the nodes of primary type \<open>type_a\<close>, the second those of primary type
  \<open>type_b\<close> other than \<open>type_a\<close>; the pattern graph holds every node of the two
  partitions, and its edges are the (source, target) pairs of the relationships of the
  payload of type \<open>rtype\<close> from a node of the first partition to one of the second.
\<close>

lemma pattern_graph_nodes_and_edges:
  assumes "kwargs_ok gd"
  shows "\<exists>res. create_pattern_visualization gd type_a rtype type_b = Inr res \<and>
           set (matching_nodes_a res) =
             {node_id. \<exists>ni. (node_id, ni) \<in> set (nodes gd) \<and> primary_type ni = type_a} \<and>
           set (matching_nodes_b res) =
             {node_id. \<exists>ni. (node_id, ni) \<in> set (nodes gd) \<and>
                            primary_type ni \<noteq> type_a \<and> primary_type ni = type_b} \<and>
           set (nodes_of (pattern_G res)) =
             set (matching_nodes_a res) \<union> set (matching_nodes_b res) \<and>
           (\<forall>u v. has_edge (pattern_G res) u v \<longleftrightarrow>
                    (\<exists>rid ri. (rid, ri) \<in> set (relationships gd) \<and> rel_type ri = rtype \<and>
                              start_node ri = u \<and> end_node ri = v \<and>
                              u \<in> set (matching_nodes_a res) \<and> v \<in> set (matching_nodes_b res))) \<and>
           (\<forall>u v ri. (u, v, ri) \<in> set (matching_relationships res) \<longleftrightarrow>
                    (\<exists>rid. (rid, ri) \<in> set (relationships gd)) \<and> rel_type ri = rtype \<and>
                    start_node ri = u \<and> end_node ri = v \<and>
                    u \<in> set (matching_nodes_a res) \<and> v \<in> set (matching_nodes_b res)) \<and>
           set (participating (matching_relationships res)) \<subseteq> set (nodes_of (pattern_G res))"
proof -
  obtain ma mb where m: "find_matching_nodes (nodes gd) type_a type_b = (ma, mb)"
    by (cases "find_matching_nodes (nodes gd) type_a type_b")
  have ma: "set ma = {node_id. \<exists>ni. (node_id, ni) \<in> set (nodes gd) \<and> primary_type ni = type_a}"
    using find_matching_nodes_sets(1)[of "nodes gd" type_a type_b] by (simp add: m)
  have mb: "set mb = {node_id. \<exists>ni. (node_id, ni) \<in> set (nodes gd) \<and>
                        primary_type ni \<noteq> type_a \<and> primary_type ni = type_b}"
    using find_matching_nodes_sets(2)[of "nodes gd" type_a type_b] by (simp add: m)
  let ?mrels = "find_matching_relationships (relationships gd) rtype ma mb"
  let ?rs = "map (\<lambda>(u, v, ri). ([] :: string, ri)) ?mrels"
  let ?G1 = "add_ids (nodes gd) (remdups (ma @ mb)) empty_digraph"
  let ?G2 = "add_rels ?rs ?G1"
  let ?res = "\<lparr>pattern_G = ?G2, matching_nodes_a = ma, matching_nodes_b = mb,
               matching_relationships = ?mrels\<rparr>"
  from assms have nok: "list_all (\<lambda>(node_id, ni). \<not> clash node_reserved (node_props ni)) (nodes gd)"
    by (simp add: kwargs_ok_def)
  have sub: "set (remdups (ma @ mb)) \<subseteq> fst ` set (nodes gd)"
    by (force simp: ma mb)
  have rok: "\<forall>(rid, ri) \<in> set ?rs. \<not> clash edge_reserved (rel_properties ri)"
    using assms by (auto simp: kwargs_ok_def list_all_iff find_matching_relationships_def)
  have build: "create_pattern_visualization gd type_a rtype type_b = Inr ?res"
    by (simp add: create_pattern_visualization_def m Let_def foldM_ids_ok[OF nok sub]
        foldM_rel_triples foldM_add_payload_rel_ok[OF rok])
  have mem: "(u, v, ri) \<in> set ?mrels \<longleftrightarrow>
      (\<exists>rid. (rid, ri) \<in> set (relationships gd)) \<and> rel_type ri = rtype \<and>
      u = start_node ri \<and> v = end_node ri \<and> u \<in> set ma \<and> v \<in> set mb" for u v ri
    by (auto simp: find_matching_relationships_def)
  have ends: "(start_node \<circ> snd) ` set ?rs \<subseteq> set ma" "(end_node \<circ> snd) ` set ?rs \<subseteq> set mb"
    by (auto simp: find_matching_relationships_def)
  have in_nodes: "m \<in> set (nodes_of ?G2) \<longleftrightarrow> m \<in> set ma \<union> set mb" for m
  proof (cases "map_of (g_node ?G1) m")
    case None
    with node_add_ids_iff[of "nodes gd" "remdups (ma @ mb)" empty_digraph m]
    have out: "m \<notin> set ma \<union> set mb" by simp
    with ends have "m \<notin> (start_node \<circ> snd) ` set ?rs" "m \<notin> (end_node \<circ> snd) ` set ?rs"
      by blast+
    with None have "map_of (g_node ?G2) m = None"
      by (simp add: node_add_rels)
    with out show ?thesis by (simp add: in_nodes_of)
  next
    case (Some a)
    with node_add_ids_iff[of "nodes gd" "remdups (ma @ mb)" empty_digraph m]
    have "m \<in> set ma \<union> set mb" by simp
    moreover from Some have "map_of (g_node ?G2) m = Some a"
      by (simp add: node_add_rels)
    ultimately show ?thesis by (simp add: in_nodes_of)
  qed
  have nodes_eq: "set (nodes_of ?G2) = set ma \<union> set mb"
    using in_nodes by blast
  have noedge: "\<not> has_edge ?G1 u v" for u v
    by (simp add: has_edge_edge_data)
  have proj: "fst t = start_node (snd (snd t)) \<and> fst (snd t) = end_node (snd (snd t))"
    if "t \<in> set ?mrels" for t
  proof -
    obtain a b r where t: "t = (a, b, r)" by (cases t)
    with that mem[of a b r] show ?thesis by simp
  qed
  have edges: "has_edge ?G2 u v \<longleftrightarrow> (\<exists>ri. (u, v, ri) \<in> set ?mrels)" for u v
  proof -
    have "has_edge ?G2 u v \<longleftrightarrow>
            (\<exists>x \<in> set ?rs. start_node (snd x) = u \<and> end_node (snd x) = v)"
      using noedge by (simp add: has_edge_add_rels case_prod_beta)
    also have "\<dots> \<longleftrightarrow>
            (\<exists>t \<in> set ?mrels. start_node (snd (snd t)) = u \<and> end_node (snd (snd t)) = v)"
      by (simp add: case_prod_beta)
    also have "\<dots> \<longleftrightarrow> (\<exists>ri. (u, v, ri) \<in> set ?mrels)"
    proof
      assume "\<exists>t \<in> set ?mrels. start_node (snd (snd t)) = u \<and> end_node (snd (snd t)) = v"
      then obtain t where t: "t \<in> set ?mrels" "start_node (snd (snd t)) = u"
          "end_node (snd (snd t)) = v" by blast
      with proj[OF t(1)] have "t = (u, v, snd (snd t))"
        by (metis prod.collapse)
      with t(1) show "\<exists>ri. (u, v, ri) \<in> set ?mrels" by metis
    next
      assume "\<exists>ri. (u, v, ri) \<in> set ?mrels"
      then obtain ri where r: "(u, v, ri) \<in> set ?mrels" by blast
      from proj[OF r] have "start_node ri = u" "end_node ri = v" by simp_all
      with r show "\<exists>t \<in> set ?mrels. start_node (snd (snd t)) = u \<and> end_node (snd (snd t)) = v"
        by force
    qed
    finally show ?thesis .
  qed
  have part: "set (participating ?mrels) \<subseteq> set (nodes_of ?G2)"
  proof
    fix x assume "x \<in> set (participating ?mrels)"
    then obtain u v ri where "(u, v, ri) \<in> set ?mrels" "x = u \<or> x = v"
      by (auto simp: participating_def)
    then have "x \<in> set ma \<union> set mb" using mem[of u v ri] by auto
    then show "x \<in> set (nodes_of ?G2)" using in_nodes by blast
  qed
  have edges_in: "has_edge ?G2 u v \<longleftrightarrow>
        (\<exists>rid ri. (rid, ri) \<in> set (relationships gd) \<and> rel_type ri = rtype \<and>
                  start_node ri = u \<and> end_node ri = v \<and> u \<in> set ma \<and> v \<in> set mb)" for u v
    unfolding edges mem by blast
  have mem': "(u, v, ri) \<in> set ?mrels \<longleftrightarrow>
      (\<exists>rid. (rid, ri) \<in> set (relationships gd)) \<and> rel_type ri = rtype \<and>
      start_node ri = u \<and> end_node ri = v \<and> u \<in> set ma \<and> v \<in> set mb" for u v ri
    unfolding mem by blast
  have "create_pattern_visualization gd type_a rtype type_b = Inr ?res \<and>
        set (matching_nodes_a ?res) =
             {node_id. \<exists>ni. (node_id, ni) \<in> set (nodes gd) \<and> primary_type ni = type_a} \<and>
        set (matching_nodes_b ?res) =
             {node_id. \<exists>ni. (node_id, ni) \<in> set (nodes gd) \<and>
                            primary_type ni \<noteq> type_a \<and> primary_type ni = type_b} \<and>
        set (nodes_of (pattern_G ?res)) =
             set (matching_nodes_a ?res) \<union> set (matching_nodes_b ?res) \<and>
        (\<forall>u v. has_edge (pattern_G ?res) u v \<longleftrightarrow>
                    (\<exists>rid ri. (rid, ri) \<in> set (relationships gd) \<and> rel_type ri = rtype \<and>
                              start_node ri = u \<and> end_node ri = v \<and>
                              u \<in> set (matching_nodes_a ?res) \<and> v \<in> set (matching_nodes_b ?res))) \<and>
        (\<forall>u v ri. (u, v, ri) \<in> set (matching_relationships ?res) \<longleftrightarrow>
                    (\<exists>rid. (rid, ri) \<in> set (relationships gd)) \<and> rel_type ri = rtype \<and>
                    start_node ri = u \<and> end_node ri = v \<and>
                    u \<in> set (matching_nodes_a ?res) \<and> v \<in> set (matching_nodes_b ?res)) \<and>
        set (participating (matching_relationships ?res)) \<subseteq> set (nodes_of (pattern_G ?res))"
    using build ma mb nodes_eq edges_in mem' part by simp
  then show ?thesis by (rule exI)
qed

lemmas matcher_defs =
  create_pattern_visualization_def find_matching_relationships_def participating_def
  has_edge_def nodes_of_def edges_of_def

lemma match_same_type:
  "create_pattern_visualization gd_same_type ''Person'' ''KNOWS'' ''Person'' = Inr res_same_type"
  by (simp add: gd_same_type_def res_same_type_def matcher_defs build_defs)

lemma match_isolated:
  "create_pattern_visualization gd_isolated ''Person'' ''ACTED_IN'' ''Movie'' = Inr res_isolated"
  by (simp add: gd_isolated_def res_isolated_def matcher_defs build_defs)

lemma kwargs_ok_isolated: "kwargs_ok gd_isolated"
  by (simp add: kwargs_ok_def gd_isolated_def build_defs)

text \<open>
  Claim C1, at the failing input: two \<open>Person\<close> nodes joined by a \<open>KNOWS\<close> relationship,
  queried with \<open>type_a = type_b = Person\<close>.  The \<open>elif\<close> of the node loop puts a node
  whose type is \<open>type_a\<close> into the first partition only, so the second partition is empty
  (lemma \<open>same_type_second_partition_empty\<close>) and no relationship is retained, although
  the edge is of the queried type and joins two nodes of the queried type.
\<close>

theorem C1_same_type_pattern_matches_nothing:
  "create_pattern_visualization gd_same_type ''Person'' ''KNOWS'' ''Person'' = Inr res_same_type \<and>
   matching_nodes_a res_same_type = [''p1'', ''p2''] \<and>
   matching_nodes_b res_same_type = [] \<and>
   matching_relationships res_same_type = [] \<and>
   edges_of (pattern_G res_same_type) = []"
  by (simp add: match_same_type) (simp add: res_same_type_def edges_of_def)

text \<open>
  Claim C2, at the failing input: two persons and a movie, \<open>p1\<close> acted in the movie and
  \<open>p2\<close> directed it, queried with the pattern \<open>Person -[ACTED_IN]-> Movie\<close>.  The matcher
  retains the one \<open>ACTED_IN\<close> relationship, whose end points are \<open>p1\<close> and \<open>m1\<close>, and
  the pattern graph has the one edge from \<open>p1\<close> to \<open>m1\<close>; but its node loop runs over
  \<open>set(matching_nodes_a + matching_nodes_b)\<close>, every node of the two types, so \<open>p2\<close>, who
  is no end point of a matching triple, is a node of the pattern graph.
\<close>

theorem C2_unmatched_node_in_pattern_graph:
  "create_pattern_visualization gd_isolated ''Person'' ''ACTED_IN'' ''Movie'' = Inr res_isolated \<and>
   matching_relationships res_isolated =
     [(''p1'', ''m1'', \<lparr>rel_type = ''ACTED_IN'', rel_properties = [],
                         start_node = ''p1'', end_node = ''m1''\<rparr>)] \<and>
   participating (matching_relationships res_isolated) = [''p1'', ''m1''] \<and>
   set (nodes_of (pattern_G res_isolated)) = {''p1'', ''p2'', ''m1''} \<and>
   ''p2'' \<notin> set (participating (matching_relationships res_isolated)) \<and>
   edges_of (pattern_G res_isolated) = [(''p1'', ''m1'', [(''type'', PStr ''ACTED_IN'')])]"
  by (simp add: match_isolated)
     (simp add: res_isolated_def participating_def nodes_of_def edges_of_def)

section \<open>Statistics\<close>

lemma sum_dict_incr: "sum_list (map snd (dict_incr eq k d)) = sum_list (map snd d) + 1"
  by (induction d) auto

lemma foldM_count_sum:
  "foldM (\<lambda>x d. count_type rt (f x) d) xs d = Inr d' \<Longrightarrow>
   sum_list (map snd d') = sum_list (map snd d) + int (length xs)"
proof (induction xs arbitrary: d)
  case Nil
  then show ?case by simp
next
  case (Cons x xs)
  show ?case
  proof (cases "hashable (f x)")
    case True
    with Cons.prems have "foldM (\<lambda>x d. count_type rt (f x) d) xs (dict_incr (key_eq rt) (f x) d) = Inr d'"
      by (simp add: count_type_def)
    from Cons.IH[OF this] show ?thesis by (simp add: sum_dict_incr)
  next
    case False
    with Cons.prems show ?thesis by (simp add: count_type_def)
  qed
qed

lemma foldM_count_ok:
  "list_all (\<lambda>x. hashable (f x)) xs \<Longrightarrow> \<exists>d'. foldM (\<lambda>x d. count_type rt (f x) d) xs d = Inr d'"
  by (induction xs arbitrary: d) (auto simp: count_type_def)

lemma length_concat_adj:
  "length (concat (map (\<lambda>(u, nbrs). map (\<lambda>(v, d). (u, v, d)) nbrs) xs))
   = sum_list (map (\<lambda>(u, nbrs). length nbrs) xs)"
  by (induction xs) auto

lemma length_edges_of: "int (length (edges_of G)) = number_of_edges G"
  unfolding edges_of_def number_of_edges_def length_concat_adj ..

lemma edge_counter_eq:
  "(\<lambda>(u, v, data) d. count_type rt (dict_get data ''type'' (PStr ''Unknown'')) d)
   = (\<lambda>x d. count_type rt (dict_get (snd (snd x)) ''type'' (PStr ''Unknown'')) d)"
  by (simp add: fun_eq_iff split: prod.splits)

lemma statistics_sums:
  assumes "get_graph_statistics rt G = Inr (Some st)"
  shows "sum_list (map snd (node_types st)) = total_nodes st \<and>
         sum_list (map snd (edge_types st)) = total_edges st \<and>
         total_nodes st = number_of_nodes G \<and> total_edges st = number_of_edges G"
proof -
  from assms obtain nts ets where
    n: "foldM (\<lambda>node d. count_type rt (node_type G node) d) (nodes_of G) [] = Inr nts"
    and e: "foldM (\<lambda>x d. count_type rt (dict_get (snd (snd x)) ''type'' (PStr ''Unknown'')) d)
              (edges_of G) [] = Inr ets"
    and st: "st = \<lparr>total_nodes = number_of_nodes G, total_edges = number_of_edges G,
                   node_types = nts, edge_types = ets\<rparr>"
    unfolding get_graph_statistics_def edge_counter_eq
    by (auto split: if_splits sum.splits)
  from foldM_count_sum[OF n] have "sum_list (map snd nts) = number_of_nodes G"
    by (simp add: nodes_of_def number_of_nodes_def)
  moreover from foldM_count_sum[OF e] have "sum_list (map snd ets) = number_of_edges G"
    by (simp add: length_edges_of)
  ultimately show ?thesis by (simp add: st)
qed

lemma statistics_returns:
  assumes "g_node G \<noteq> []" "hashable_types G"
  shows "\<exists>st. get_graph_statistics rt G = Inr (Some st)"
proof -
  from assms(2) have "list_all (\<lambda>n. hashable (node_type G n)) (nodes_of G)"
    by (simp add: hashable_types_def)
  from foldM_count_ok[OF this] obtain nts where
    n: "foldM (\<lambda>node d. count_type rt (node_type G node) d) (nodes_of G) [] = Inr nts"
    by blast
  from assms(2) have "list_all (\<lambda>x. hashable (dict_get (snd (snd x)) ''type'' (PStr ''Unknown''))) (edges_of G)"
    by (auto simp: hashable_types_def list_all_iff)
  from foldM_count_ok[OF this] obtain ets where
    e: "foldM (\<lambda>x d. count_type rt (dict_get (snd (snd x)) ''type'' (PStr ''Unknown'')) d)
              (edges_of G) [] = Inr ets"
    by blast
  show ?thesis
    unfolding get_graph_statistics_def edge_counter_eq
    using assms(1) n e by simp
qed

text \<open>
  Claim C7: whenever \<open>get_graph_statistics\<close> returns statistics, the counts of the node
  histogram add up to \<open>total_nodes\<close>, those of the relationship histogram to
  \<open>total_edges\<close>, and the two totals are the numbers of nodes and edges of the graph.  It
  returns statistics for every graph with a node whose \<open>type\<close> attributes are hashable;
  for the graph without nodes it returns the empty dictionary.
\<close>

theorem C7_histograms_sum_to_totals:
  "(\<forall>st. get_graph_statistics rt G = Inr (Some st) \<longrightarrow>
      sum_list (map snd (node_types st)) = total_nodes st \<and>
      sum_list (map snd (edge_types st)) = total_edges st \<and>
      total_nodes st = number_of_nodes G \<and> total_edges st = number_of_edges G) \<and>
   (g_node G \<noteq> [] \<and> hashable_types G \<longrightarrow> (\<exists>st. get_graph_statistics rt G = Inr (Some st))) \<and>
   (g_node G = [] \<longrightarrow> get_graph_statistics rt G = Inr None)"
  using statistics_sums[of rt G] statistics_returns[of G rt]
  by (auto simp: get_graph_statistics_def)

lemmas statistics_defs = get_graph_statistics_def count_type_def node_type_def dict_get_def
  nodes_of_def edges_of_def number_of_nodes_def number_of_edges_def example_runtime_def

lemma statistics_parallel:
  "get_graph_statistics example_runtime G_parallel =
     Inr (Some \<lparr>total_nodes = 2, total_edges = 1,
                node_types = [(PStr ''Person'', 1), (PStr ''Movie'', 1)],
                edge_types = [(PStr ''DIRECTED'', 1)]\<rparr>)"
  by (simp add: statistics_defs G_parallel_def)

lemma hashable_types_parallel: "g_node G_parallel \<noteq> [] \<and> hashable_types G_parallel"
  by (simp add: hashable_types_def statistics_defs G_parallel_def)

text \<open>
  The theorem of C7 at the graph of two nodes and one edge built from the payload with two
  parallel relationships: the statistics are returned, the node histogram counts one
  \<open>Person\<close> and one \<open>Movie\<close>, the relationship histogram one \<open>DIRECTED\<close>.
\<close>

theorem C7_witness:
  "g_node G_parallel \<noteq> [] \<and> hashable_types G_parallel \<and>
   (\<exists>st. get_graph_statistics example_runtime G_parallel = Inr (Some st) \<and>
      node_types st = [(PStr ''Person'', 1), (PStr ''Movie'', 1)] \<and>
      edge_types st = [(PStr ''DIRECTED'', 1)] \<and>
      sum_list (map snd (node_types st)) = total_nodes st \<and>
      sum_list (map snd (edge_types st)) = total_edges st \<and>
      total_nodes st = number_of_nodes G_parallel \<and>
      total_edges st = number_of_edges G_parallel)"
proof -
  from C7_histograms_sum_to_totals[of example_runtime G_parallel] hashable_types_parallel
  obtain st where st: "get_graph_statistics example_runtime G_parallel = Inr (Some st)"
    and sums: "sum_list (map snd (node_types st)) = total_nodes st"
      "sum_list (map snd (edge_types st)) = total_edges st"
      "total_nodes st = number_of_nodes G_parallel"
      "total_edges st = number_of_edges G_parallel"
    by blast
  from st have "node_types st = [(PStr ''Person'', 1), (PStr ''Movie'', 1)]"
    "edge_types st = [(PStr ''DIRECTED'', 1)]"
    by (auto simp: statistics_parallel)
  with st sums hashable_types_parallel show ?thesis by blast
qed

section \<open>Search and reset\<close>

lemma highlight_nodes_ok:
  assumes "graph_renderer p = Some r" "get_node_styling (plotter_G p) = Inr (cs, ss)"
  shows "\<exists>ms cols. highlight_nodes rt p t = Inr (ms, p\<lparr>graph_renderer := Some (r\<lparr>data_color := cols\<rparr>)\<rparr>)"
  using assms by (simp add: highlight_nodes_def Let_def) blast

lemma highlight_all_Nil [simp]: "highlight_all rt [] p = Inr p"
  by (simp add: highlight_all_def)

lemma highlight_all_Cons:
  "highlight_all rt (t # ts) p =
     (case highlight_nodes rt p t of Inl e \<Rightarrow> Inl e | Inr (ms, q) \<Rightarrow> highlight_all rt ts q)"
  by (simp add: highlight_all_def split: sum.splits prod.splits)

lemma highlight_all_ok:
  assumes "graph_renderer p = Some r" "get_node_styling (plotter_G p) = Inr (cs, ss)"
  shows "\<exists>cols. highlight_all rt ts p = Inr (p\<lparr>graph_renderer := Some (r\<lparr>data_color := cols\<rparr>)\<rparr>)"
  using assms
proof (induction ts arbitrary: p r)
  case Nil
  then have "p = p\<lparr>graph_renderer := Some (r\<lparr>data_color := data_color r\<rparr>)\<rparr>" by simp
  then show ?case by (metis highlight_all_Nil)
next
  case (Cons t ts)
  from highlight_nodes_ok[OF Cons.prems, of rt t] obtain ms cols where
    h: "highlight_nodes rt p t = Inr (ms, p\<lparr>graph_renderer := Some (r\<lparr>data_color := cols\<rparr>)\<rparr>)"
    by blast
  let ?q = "p\<lparr>graph_renderer := Some (r\<lparr>data_color := cols\<rparr>)\<rparr>"
  have "graph_renderer ?q = Some (r\<lparr>data_color := cols\<rparr>)" by simp
  moreover have "get_node_styling (plotter_G ?q) = Inr (cs, ss)" using Cons.prems(2) by simp
  ultimately obtain cols' where
    "highlight_all rt ts ?q = Inr (?q\<lparr>graph_renderer := Some (r\<lparr>data_color := cols\<rparr>\<lparr>data_color := cols'\<rparr>)\<rparr>)"
    using Cons.IH by blast
  then have "highlight_all rt (t # ts) p = Inr (p\<lparr>graph_renderer := Some (r\<lparr>data_color := cols'\<rparr>)\<rparr>)"
    by (simp add: highlight_all_Cons h)
  then show ?case by blast
qed

lemma highlight_all_unrendered:
  "graph_renderer p = None \<Longrightarrow> highlight_all rt ts p = Inr p"
  by (induction ts) (simp_all add: highlight_all_Cons highlight_nodes_def)

lemma highlight_all_error:
  assumes "graph_renderer p = Some r" "get_node_styling (plotter_G p) = Inl e" "ts \<noteq> []"
  shows "highlight_all rt ts p = Inl e"
  using assms by (cases ts) (simp_all add: highlight_all_Cons highlight_nodes_def)

text \<open>
  Claim C9: on a plotter with a renderer whose styling succeeds, every sequence of searches
  returns, and \<open>reset_node_colors\<close> after it leaves the graph untouched and the colour
  column equal to the colours of \<open>_get_node_styling\<close> on the untouched graph: the state
  is the one of a reset without any search.  On a plotter without renderer search and
  reset change nothing (there is no colour column); when the styling raises, the searches
  and the reset raise the same error.
\<close>

theorem C9_reset_after_highlights_restores_styling:
  "(\<forall>r cs ss. graph_renderer p = Some r \<and> get_node_styling (plotter_G p) = Inr (cs, ss) \<longrightarrow>
      (\<exists>q. highlight_all rt ts p = Inr q \<and> plotter_G q = plotter_G p \<and>
            reset_node_colors q = Inr (p\<lparr>graph_renderer := Some (r\<lparr>data_color := cs\<rparr>)\<rparr>) \<and>
            reset_node_colors q = reset_node_colors p)) \<and>
   (graph_renderer p = None \<longrightarrow>
      highlight_all rt ts p = Inr p \<and> reset_node_colors p = Inr p) \<and>
   (\<forall>r e. graph_renderer p = Some r \<and> get_node_styling (plotter_G p) = Inl e \<and> ts \<noteq> [] \<longrightarrow>
      highlight_all rt ts p = Inl e \<and> reset_node_colors p = Inl e)"
proof -
  have 1: "\<exists>q. highlight_all rt ts p = Inr q \<and> plotter_G q = plotter_G p \<and>
            reset_node_colors q = Inr (p\<lparr>graph_renderer := Some (r\<lparr>data_color := cs\<rparr>)\<rparr>) \<and>
            reset_node_colors q = reset_node_colors p"
    if "graph_renderer p = Some r" "get_node_styling (plotter_G p) = Inr (cs, ss)" for r cs ss
  proof -
    from highlight_all_ok[OF that, of rt ts] obtain cols where
      h: "highlight_all rt ts p = Inr (p\<lparr>graph_renderer := Some (r\<lparr>data_color := cols\<rparr>)\<rparr>)"
      by blast
    let ?q = "p\<lparr>graph_renderer := Some (r\<lparr>data_color := cols\<rparr>)\<rparr>"
    have a: "reset_node_colors ?q = Inr (p\<lparr>graph_renderer := Some (r\<lparr>data_color := cs\<rparr>)\<rparr>)"
      using that by (simp add: reset_node_colors_def)
    have b: "reset_node_colors p = Inr (p\<lparr>graph_renderer := Some (r\<lparr>data_color := cs\<rparr>)\<rparr>)"
      using that by (simp add: reset_node_colors_def)
    have "plotter_G ?q = plotter_G p" by simp
    with h a b show ?thesis by metis
  qed
  have 2: "highlight_all rt ts p = Inr p \<and> reset_node_colors p = Inr p"
    if "graph_renderer p = None"
    using that by (simp add: highlight_all_unrendered reset_node_colors_def)
  have 3: "highlight_all rt ts p = Inl e \<and> reset_node_colors p = Inl e"
    if "graph_renderer p = Some r" "get_node_styling (plotter_G p) = Inl e" "ts \<noteq> []" for r e
    using that by (simp add: highlight_all_error reset_node_colors_def)
  from 1 2 3 show ?thesis by blast
qed

lemmas styling_defs = get_node_styling_def style_of_def node_type_def dict_get_def nodes_of_def
  startswith_def

lemma styling_parallel:
  "get_node_styling G_parallel = Inr ([''#31a354'', ''#3182bd''], [8, 10])"
  by (simp add: styling_defs G_parallel_def)

text \<open>
  The theorem of C9 at the plotter on the graph of \<open>gd_parallel\<close>: after the searches for
  \<open>clint\<close> and for \<open>1992\<close> the reset gives back the colour of a person and that of a
  movie.
\<close>

theorem C9_witness:
  "graph_renderer plotter_parallel = Some \<lparr>data_color = [''#31a354'', ''#3182bd'']\<rparr> \<and>
   get_node_styling (plotter_G plotter_parallel) = Inr ([''#31a354'', ''#3182bd''], [8, 10]) \<and>
   (\<exists>q. highlight_all example_runtime [''clint'', ''1992''] plotter_parallel = Inr q \<and>
         plotter_G q = G_parallel \<and>
         reset_node_colors q = Inr plotter_parallel)"
proof -
  have r: "graph_renderer plotter_parallel = Some \<lparr>data_color = [''#31a354'', ''#3182bd'']\<rparr>"
    by (simp add: plotter_parallel_def)
  have s: "get_node_styling (plotter_G plotter_parallel) = Inr ([''#31a354'', ''#3182bd''], [8, 10])"
    by (simp add: plotter_parallel_def styling_parallel)
  from C9_reset_after_highlights_restores_styling[of plotter_parallel example_runtime "[''clint'', ''1992'']"] r s
  obtain q where q: "highlight_all example_runtime [''clint'', ''1992''] plotter_parallel = Inr q"
    "plotter_G q = plotter_G plotter_parallel"
    "reset_node_colors q =
       Inr (plotter_parallel\<lparr>graph_renderer :=
              Some (\<lparr>data_color = [''#31a354'', ''#3182bd'']\<rparr>\<lparr>data_color := [''#31a354'', ''#3182bd'']\<rparr>)\<rparr>)"
    by blast
  from q(3) have "reset_node_colors q = Inr plotter_parallel"
    by (simp add: plotter_parallel_def)
  with q(1,2) r s show ?thesis by (auto simp: plotter_parallel_def)
qed

section \<open>Filters\<close>

lemma split_from_not_Nil: "split_from sep acc s \<noteq> []"
  by (induction s arbitrary: acc rule: length_induct) (case_tac xs; simp)

lemma split_from_found:
  "sep \<noteq> [] \<Longrightarrow> 0 \<le> py_find s sep \<Longrightarrow> 1 < length (split_from sep acc s)"
proof (induction s arbitrary: acc)
  case Nil
  then show ?case by simp
next
  case (Cons c cs)
  show ?case
  proof (cases "startswith (c # cs) sep")
    case True
    have "split_from sep [] (drop (length sep - 1) cs) \<noteq> []"
      by (rule split_from_not_Nil)
    then have "0 < length (split_from sep [] (drop (length sep - 1) cs))"
      by blast
    with True show ?thesis by simp
  next
    case False
    with Cons.prems(2) have "0 \<le> py_find cs sep"
      by (simp add: Let_def split: if_splits)
    from Cons.IH[OF Cons.prems(1) this] False show ?thesis by simp
  qed
qed

lemma contains_part:
  assumes "py_in ''contains'' s"
  shows "\<exists>part. py_index (py_split s ''contains'') 1 = Inr part"
  using assms split_from_found[of "''contains''" s "[]"]
  by (simp add: py_index_def py_split_def py_in_def)

lemma evaluate_filter_returns: "\<exists>b. evaluate_filter rt v fc = Inr b"
proof (cases "fc \<noteq> [] \<and> py_in ''contains'' (lower (strip fc))")
  case True
  with contains_part[of "lower (strip fc)"] obtain part where
    "py_index (py_split (lower (strip fc)) ''contains'') 1 = Inr part" by blast
  with True show ?thesis by (simp add: evaluate_filter_def Let_def)
next
  case False
  then show ?thesis by (auto simp: evaluate_filter_def Let_def)
qed

lemma filter_color_cases:
  "filter_color rt pd ntype pn fc node =
     (case map_of (nodes pd) node of
        None \<Rightarrow> Inl KeyError
      | Some ni \<Rightarrow> Inr (case filter_color rt pd ntype pn fc node of Inl e \<Rightarrow> [] | Inr c \<Rightarrow> c))"
proof (cases "map_of (nodes pd) node")
  case None
  then show ?thesis by (simp add: filter_color_def)
next
  case (Some ni)
  obtain b where "evaluate_filter rt (dict_get (properties ni) pn PNone) fc = Inr b"
    using evaluate_filter_returns by blast
  with Some show ?thesis by (simp add: filter_color_def Let_def)
qed

lemma filter_color_error_independent:
  "(filter_color rt pd ntype pn fc node = Inl e) = (filter_color rt pd ntype' pn' fc' node = Inl e)"
  by (subst filter_color_cases, subst (2) filter_color_cases) (simp split: option.splits)

lemma filter_color_Inr_or_KeyError:
  "(\<exists>c. filter_color rt pd ntype pn fc node = Inr c) \<or>
   (\<forall>ntype' pn' fc'. filter_color rt pd ntype' pn' fc' node = Inl KeyError)"
proof (cases "map_of (nodes pd) node")
  case None
  then show ?thesis by (simp add: filter_color_def)
next
  case (Some ni)
  then show ?thesis by (subst filter_color_cases) simp
qed









lemmas string_defs = py_in_def py_split_def py_index_def startswith_def strip_def strip_chars_def
  py_isspace_def lower_def lower_char_def quotes_def isdigit_def Let_def








section \<open>Search with the empty term\<close>

lemma py_find_empty [simp]: "py_find s [] = 0"
  by (cases s) (simp_all add: startswith_def)

lemma found_empty: "found rt G [] n = searchable G n"
  by (simp add: found_def searchable_def node_attrs_def list_ex_iff)

lemma found_searchable: "found rt G t n \<Longrightarrow> searchable G n"
  by (auto simp: found_def searchable_def node_attrs_def list_ex_iff)

lemma styling_fold_length:
  "foldM (\<lambda>node (node_colors, node_sizes).
              case style_of (node_type G node) of
                Inl e \<Rightarrow> Inl e
              | Inr (c, sz) \<Rightarrow> Inr (node_colors @ [c], node_sizes @ [sz])) ns (cs0, ss0) = Inr (cs, ss)
   \<Longrightarrow> length cs = length cs0 + length ns"
proof (induction ns arbitrary: cs0 ss0)
  case Nil
  then show ?case by simp
next
  case (Cons n ns)
  from Cons.prems obtain c sz where "style_of (node_type G n) = Inr (c, sz)"
    by (auto split: sum.splits)
  with Cons.prems Cons.IH[of "cs0 @ [c]" "ss0 @ [sz]"] show ?case by simp
qed

lemma styling_length:
  "get_node_styling G = Inr (cs, ss) \<Longrightarrow> length cs = length (nodes_of G)"
  using styling_fold_length[of G "nodes_of G" "[]" "[]" cs ss]
  by (simp add: get_node_styling_def)

lemma highlight_nodes_rendered:
  assumes "graph_renderer p = Some r" "get_node_styling (plotter_G p) = Inr (cs, ss)"
  shows "highlight_nodes rt p t =
           Inr (filter (found rt (plotter_G p) (lower t)) (nodes_of (plotter_G p)),
                p\<lparr>graph_renderer := Some (r\<lparr>data_color :=
                     map (\<lambda>(i, node). if found rt (plotter_G p) (lower t) node then ''#FFD700''
                                        else cs ! i)
                         (enumerate 0 (nodes_of (plotter_G p)))\<rparr>)\<rparr>)"
  using assms by (simp add: highlight_nodes_def Let_def)

lemma map_enumerate_nth:
  "i < length xs \<Longrightarrow> map (\<lambda>(i, x). f i x) (enumerate 0 xs) ! i = f i (xs ! i)"
  by (simp add: nth_enumerate_eq)

text \<open>
  Claim C8 fails as stated: before \<open>create_visualization\<close> the plotter has no renderer,
  and the search with the empty term returns no node and changes nothing, although the
  node \<open>p1\<close> has string values.
\<close>

theorem C8_counterexample:
  "''p1'' \<in> set (nodes_of (plotter_G plotter_unrendered)) \<and>
   node_attrs (plotter_G plotter_unrendered) ''p1'' =
     [(''label'', PStr ''Person''), (''type'', PStr ''Person''), (''name'', PStr ''Clint'')] \<and>
   searchable (plotter_G plotter_unrendered) ''p1'' \<and>
   highlight_nodes example_runtime plotter_unrendered [] = Inr ([], plotter_unrendered)"
  by (simp add: plotter_unrendered_def G_parallel_def nodes_of_def node_attrs_def dict_get_def
      searchable_def highlight_nodes_def)

text \<open>
  Claim C8, as the code has it.  On a plotter with a renderer whose styling succeeds, the
  search with the empty term returns exactly the nodes that have an attribute value (the
  \<open>label\<close> and \<open>type\<close> entries included) that is an instance of \<open>str\<close>, \<open>int\<close> (so
  also a \<open>bool\<close>) or \<open>float\<close>, in the order of the graph, colours these nodes gold and
  the others in their styling colour, and leaves the graph as it is; and for every search
  term the search returns, and every node it returns has such a value.  On a plotter
  without renderer every search returns no node and changes nothing.
\<close>

theorem C8_empty_term_matches_searchable_nodes:
  "(\<forall>r cs ss. graph_renderer p = Some r \<and> get_node_styling (plotter_G p) = Inr (cs, ss) \<longrightarrow>
      (\<exists>q r'. highlight_nodes rt p [] =
                 Inr (filter (searchable (plotter_G p)) (nodes_of (plotter_G p)), q) \<and>
              plotter_G q = plotter_G p \<and> graph_renderer q = Some r' \<and>
              length cs = length (nodes_of (plotter_G p)) \<and>
              length (data_color r') = length (nodes_of (plotter_G p)) \<and>
              (\<forall>i < length (nodes_of (plotter_G p)).
                  data_color r' ! i =
                    (if searchable (plotter_G p) (nodes_of (plotter_G p) ! i) then gold else cs ! i))) \<and>
      (\<forall>t. \<exists>ms q. highlight_nodes rt p t = Inr (ms, q) \<and>
                   (\<forall>n \<in> set ms. searchable (plotter_G p) n))) \<and>
   (graph_renderer p = None \<longrightarrow> (\<forall>t. highlight_nodes rt p t = Inr ([], p)))"
proof -
  let ?G = "plotter_G p"
  have 1: "\<exists>q r'. highlight_nodes rt p [] = Inr (filter (searchable ?G) (nodes_of ?G), q) \<and>
              plotter_G q = ?G \<and> graph_renderer q = Some r' \<and>
              length cs = length (nodes_of ?G) \<and>
              length (data_color r') = length (nodes_of ?G) \<and>
              (\<forall>i < length (nodes_of ?G).
                  data_color r' ! i = (if searchable ?G (nodes_of ?G ! i) then gold else cs ! i))"
    if r: "graph_renderer p = Some r" and s: "get_node_styling ?G = Inr (cs, ss)" for r cs ss
  proof -
    let ?cols = "map (\<lambda>(i, node). if searchable ?G node then ''#FFD700'' else cs ! i)
                     (enumerate 0 (nodes_of ?G))"
    let ?r' = "r\<lparr>data_color := ?cols\<rparr>"
    let ?q = "p\<lparr>graph_renderer := Some ?r'\<rparr>"
    have h: "highlight_nodes rt p [] = Inr (filter (searchable ?G) (nodes_of ?G), ?q)"
      using highlight_nodes_rendered[OF r s, of rt "[]"]
      by (simp add: lower_def found_empty[abs_def])
    have l: "length (data_color ?r') = length (nodes_of ?G)" by simp
    have c: "data_color ?r' ! i = (if searchable ?G (nodes_of ?G ! i) then gold else cs ! i)"
      if "i < length (nodes_of ?G)" for i
      using map_enumerate_nth[OF that, of "\<lambda>i node. if searchable ?G node then ''#FFD700'' else cs ! i"]
      by (simp add: gold_def)
    have "plotter_G ?q = ?G" "graph_renderer ?q = Some ?r'" by simp_all
    with h l c styling_length[OF s] show ?thesis by blast
  qed
  have 2: "\<exists>ms q. highlight_nodes rt p t = Inr (ms, q) \<and> (\<forall>n \<in> set ms. searchable ?G n)"
    if r: "graph_renderer p = Some r" and s: "get_node_styling ?G = Inr (cs, ss)" for r cs ss t
    using highlight_nodes_rendered[OF r s, of rt t] found_searchable[of rt ?G "lower t"]
    by auto
  have 3: "highlight_nodes rt p t = Inr ([], p)" if "graph_renderer p = None" for t
    using that by (simp add: highlight_nodes_def)
  from 1 2 3 show ?thesis by blast
qed

lemma styling_dangling:
  "get_node_styling G_dangling = Inr ([''#31a354'', ''#756bb1''], [8, 5])"
  by (simp add: styling_defs G_dangling_def)

text \<open>
  The theorem of C8 at the plotter on the graph of \<open>gd_dangling\<close>: the empty term matches
  the node \<open>a\<close>, which has its label and type, and not the node \<open>ghost\<close>, which has no
  attribute; \<open>a\<close> becomes gold and \<open>ghost\<close> keeps its styling colour.
\<close>

theorem C8_witness:
  "graph_renderer plotter_dangling = Some \<lparr>data_color = [''#31a354'', ''#756bb1'']\<rparr> \<and>
   get_node_styling (plotter_G plotter_dangling) = Inr ([''#31a354'', ''#756bb1''], [8, 5]) \<and>
   nodes_of (plotter_G plotter_dangling) = [''a'', ''ghost''] \<and>
   searchable (plotter_G plotter_dangling) ''a'' \<and>
   \<not> searchable (plotter_G plotter_dangling) ''ghost'' \<and>
   (\<exists>q r'. highlight_nodes example_runtime plotter_dangling [] = Inr ([''a''], q) \<and>
           graph_renderer q = Some r' \<and> data_color r' ! 0 = gold \<and>
           data_color r' ! 1 = ''#756bb1'')"
proof -
  have r: "graph_renderer plotter_dangling = Some \<lparr>data_color = [''#31a354'', ''#756bb1'']\<rparr>"
    by (simp add: plotter_dangling_def)
  have s: "get_node_styling (plotter_G plotter_dangling) = Inr ([''#31a354'', ''#756bb1''], [8, 5])"
    by (simp add: plotter_dangling_def styling_dangling)
  have n: "nodes_of (plotter_G plotter_dangling) = [''a'', ''ghost'']"
    by (simp add: plotter_dangling_def G_dangling_def nodes_of_def)
  have a: "searchable (plotter_G plotter_dangling) ''a''"
    by (simp add: plotter_dangling_def G_dangling_def searchable_def node_attrs_def dict_get_def)
  have g: "\<not> searchable (plotter_G plotter_dangling) ''ghost''"
    by (simp add: plotter_dangling_def G_dangling_def searchable_def node_attrs_def dict_get_def)
  from C8_empty_term_matches_searchable_nodes[of plotter_dangling example_runtime] r s
  obtain q r' where
    h: "highlight_nodes example_runtime plotter_dangling [] =
          Inr (filter (searchable (plotter_G plotter_dangling)) (nodes_of (plotter_G plotter_dangling)), q)"
    and q: "graph_renderer q = Some r'"
    and c: "\<forall>i < length (nodes_of (plotter_G plotter_dangling)).
              data_color r' ! i =
                (if searchable (plotter_G plotter_dangling) (nodes_of (plotter_G plotter_dangling) ! i)
                 then gold else [''#31a354'', ''#756bb1''] ! i)"
    by blast
  from h have h': "highlight_nodes example_runtime plotter_dangling [] = Inr ([''a''], q)"
    unfolding n using a g by simp
  from c have "data_color r' ! 0 = gold" unfolding n using a by simp
  moreover from c have "data_color r' ! 1 = ''#756bb1''" unfolding n using g by simp
  ultimately show ?thesis using r s n a g h' q by blast
qed

section \<open>Conditions that start with a comparison sign\<close>

lemma dropWhile_keeps:
  "\<not> P b \<Longrightarrow> \<exists>u. dropWhile P (xs @ b # ys) = u @ b # ys"
proof (induction xs)
  case Nil
  then show ?case by simp
next
  case (Cons x xs)
  show ?case
  proof (cases "P x")
    case True
    with Cons show ?thesis by simp
  next
    case False
    then have "dropWhile P ((x # xs) @ b # ys) = (x # xs) @ b # ys" by simp
    then show ?thesis by blast
  qed
qed

lemma strip_keeps1:
  assumes "\<not> py_isspace a"
  shows "\<exists>u. strip (a # w) = a # u"
proof -
  from dropWhile_keeps[of py_isspace a "rev w" "[]", OF assms] obtain u where
    "dropWhile py_isspace (rev w @ [a]) = u @ [a]" by blast
  with assms have "strip (a # w) = a # rev u" by (simp add: strip_def)
  then show ?thesis by blast
qed

lemma strip_keeps2:
  assumes "\<not> py_isspace a" "\<not> py_isspace b"
  shows "\<exists>u. strip (a # b # w) = a # b # u"
proof -
  from dropWhile_keeps[of py_isspace b "rev w" "[a]", OF assms(2)] obtain u where
    "dropWhile py_isspace (rev w @ [b, a]) = u @ [b, a]" by auto
  with assms have "strip (a # b # w) = a # b # rev u" by (simp add: strip_def)
  then show ?thesis by blast
qed

lemma strip_chars_keeps1:
  assumes "a \<notin> set chars"
  shows "\<exists>u. strip_chars (a # w) chars = a # u"
proof -
  from dropWhile_keeps[of "\<lambda>c. c \<in> set chars" a "rev w" "[]"] assms obtain u where
    "dropWhile (\<lambda>c. c \<in> set chars) (rev w @ [a]) = u @ [a]" by blast
  with assms have "strip_chars (a # w) chars = a # rev u" by (simp add: strip_chars_def)
  then show ?thesis by blast
qed

lemma py_replace_keeps1:
  assumes "old \<noteq> []" "a \<noteq> hd old"
  shows "py_replace (a # w) old new = a # py_replace w old new"
proof -
  from assms have "\<not> startswith (a # w) old"
    by (cases old) (auto simp: startswith_def)
  then show ?thesis by simp
qed

lemma sign_facts:
  assumes "c = CHR ''>'' \<or> c = CHR ''<''"
  shows "\<not> py_isspace c" "lower_char c = c" "c \<noteq> CHR ''=''" "c \<notin> set quotes"
        "c \<notin> set ''0123456789''" "c \<noteq> CHR ''-''"
proof -
  from assms show "\<not> py_isspace c" by (elim disjE) (simp_all add: py_isspace_def)
  from assms show "lower_char c = c" by (elim disjE) (simp_all add: lower_char_def)
  from assms show "c \<noteq> CHR ''=''" by (elim disjE) simp_all
  from assms show "c \<notin> set quotes" by (elim disjE) (simp_all add: quotes_def)
  from assms show "c \<notin> set ''0123456789''" by (elim disjE) simp_all
  from assms show "c \<noteq> CHR ''-''" by (elim disjE) simp_all
qed

lemma eq_sign_facts: "\<not> py_isspace CHR ''=''" "lower_char CHR ''='' = CHR ''=''"
  by (simp_all add: py_isspace_def lower_char_def)

lemma condition_shape:
  assumes "c = CHR ''>'' \<or> c = CHR ''<''"
  shows "\<exists>rest. lower (strip (c # CHR ''='' # t)) = c # CHR ''='' # rest"
proof -
  from strip_keeps2[OF sign_facts(1)[OF assms] eq_sign_facts(1), of t] obtain u where
    "strip (c # CHR ''='' # t) = c # CHR ''='' # u" by blast
  then have "lower (strip (c # CHR ''='' # t)) = c # CHR ''='' # lower u"
    by (simp add: lower_def sign_facts(2)[OF assms] eq_sign_facts(2))
  then show ?thesis by blast
qed

lemma leftover_shape:
  assumes "c = CHR ''>'' \<or> c = CHR ''<''"
  shows "\<exists>lit. leftover (c # CHR ''='' # t) = c # lit"
proof -
  from condition_shape[OF assms, of t] obtain rest where
    fc: "lower (strip (c # CHR ''='' # t)) = c # CHR ''='' # rest" by blast
  have 1: "py_replace (c # CHR ''='' # rest) ''=='' [] = c # py_replace (CHR ''='' # rest) ''=='' []"
    by (rule py_replace_keeps1) (simp_all add: sign_facts(3)[OF assms])
  have 2: "py_replace (c # w) ''='' [] = c # py_replace w ''='' []" for w
    by (rule py_replace_keeps1) (simp_all add: sign_facts(3)[OF assms])
  obtain u where 3: "strip (c # py_replace (py_replace (CHR ''='' # rest) ''=='' []) ''='' []) = c # u"
    using strip_keeps1[OF sign_facts(1)[OF assms]] by blast
  obtain lit where 4: "strip_chars (c # u) quotes = c # lit"
    using strip_chars_keeps1[OF sign_facts(4)[OF assms]] by blast
  have "leftover (c # CHR ''='' # t) = c # lit"
    unfolding leftover_def fc 1 2 3 4 ..
  then show ?thesis by blast
qed

lemma lower_char_cases:
  "lower_char a = a \<or> lower_char a \<in> set ''abcdefghijklmnopqrstuvwxyz''"
proof -
  define tbl where "tbl = zip ''ABCDEFGHIJKLMNOPQRSTUVWXYZ'' ''abcdefghijklmnopqrstuvwxyz''"
  have l: "lower_char a = (case map_of tbl a of None \<Rightarrow> a | Some l \<Rightarrow> l)"
    by (simp only: lower_char_def tbl_def)
  show ?thesis
  proof (cases "map_of tbl a")
    case None
    with l show ?thesis by simp
  next
    case (Some b)
    then have "(a, b) \<in> set tbl" by (rule map_of_SomeD)
    then have "b \<in> set ''abcdefghijklmnopqrstuvwxyz''"
      unfolding tbl_def by (rule set_zip_rightD)
    with l Some show ?thesis by simp
  qed
qed

lemma lower_char_sign:
  assumes "c = CHR ''>'' \<or> c = CHR ''<''" "lower_char a = c"
  shows "a = c"
proof -
  from assms(1) have "c \<notin> set ''abcdefghijklmnopqrstuvwxyz''"
    by (elim disjE) simp_all
  with lower_char_cases[of a] assms(2) show ?thesis by metis
qed

lemma lower_sign:
  assumes "c = CHR ''>'' \<or> c = CHR ''<''" "lower s = c # w"
  shows "startswith s [c]"
proof -
  from assms(2) obtain a u where s: "s = a # u" and "lower_char a = c"
    by (cases s) (auto simp: lower_def)
  with lower_char_sign[OF assms(1)] have "a = c" by blast
  with s show ?thesis by (simp add: startswith_def)
qed

lemma str_nat_hd: "str_nat n \<noteq> [] \<and> hd (str_nat n) \<in> set ''0123456789''"
proof (induction n rule: str_nat.induct)
  case (1 n)
  show ?case
  proof (cases "n < 10")
    case True
    then have "''0123456789'' ! n \<in> set ''0123456789''"
      by (intro nth_mem) simp
    with True show ?thesis by (subst (1 2) str_nat.simps) simp
  next
    case False
    with 1 have "str_nat (n div 10) \<noteq> [] \<and> hd (str_nat (n div 10)) \<in> set ''0123456789''"
      by simp
    with False show ?thesis by (subst (1 2) str_nat.simps) simp
  qed
qed

lemma str_int_hd: "str_int i \<noteq> [] \<and> hd (str_int i) \<in> set ''-0123456789''"
  using str_nat_hd[of "nat i"] by (auto simp: str_int_def)

lemma str_int_not_sign:
  assumes "c = CHR ''>'' \<or> c = CHR ''<''"
  shows "\<not> startswith (str_int i) [c]"
proof
  assume "startswith (str_int i) [c]"
  then have "hd (str_int i) = c"
    by (cases "str_int i") (simp_all add: startswith_def)
  with str_int_hd[of i] have "c \<in> set ''-0123456789''" by simp
  with assms show False by (elim disjE) simp_all
qed

lemma py_in_eq_sign: "py_in ''='' (c # CHR ''='' # rest)"
  by (simp add: py_in_def startswith_def Let_def)

lemma evaluate_filter_inclusive:
  assumes "c = CHR ''>'' \<or> c = CHR ''<''"
    and "\<not> py_in ''contains'' (lower (strip (c # CHR ''='' # t)))"
  shows "evaluate_filter rt v (c # CHR ''='' # t) =
           Inr (lower (py_str rt v) = lower (leftover (c # CHR ''='' # t)))"
proof -
  from condition_shape[OF assms(1), of t] obtain rest where
    fc: "lower (strip (c # CHR ''='' # t)) = c # CHR ''='' # rest" by blast
  from leftover_shape[OF assms(1), of t] obtain lit where
    lit: "leftover (c # CHR ''='' # t) = c # lit" by blast
  have nd: "\<not> isdigit (c # lit)"
    using sign_facts(5)[OF assms(1)] by (simp add: isdigit_def)
  have eq: "py_in ''='' (lower (strip (c # CHR ''='' # t)))"
    unfolding fc by (rule py_in_eq_sign)
  have "evaluate_filter rt v (c # CHR ''='' # t) =
          Inr (except_False (equality_comparison rt v (leftover (c # CHR ''='' # t))))"
    using assms(2) eq by (simp add: evaluate_filter_def leftover_def Let_def)
  also have "\<dots> = Inr (lower (py_str rt v) = lower (leftover (c # CHR ''='' # t)))"
    unfolding lit using nd by (simp add: equality_comparison_def except_False_def)
  finally show ?thesis .
qed

lemma split_from_hd: "\<exists>w ys. split_from sep acc s = (rev acc @ w) # ys"
proof (induction s arbitrary: acc)
  case Nil
  show ?case by simp
next
  case (Cons a s)
  show ?case
  proof (cases "startswith (a # s) sep")
    case True
    then show ?thesis by simp
  next
    case False
    from Cons[of "a # acc"] obtain w ys where
      "split_from sep (a # acc) s = (rev (a # acc) @ w) # ys" by blast
    with False have "split_from sep acc (a # s) = (rev acc @ a # w) # ys" by simp
    then show ?thesis by blast
  qed
qed

lemma split_second_sign:
  assumes "c \<noteq> CHR ''=''" "\<forall>s. float_of_str rt (CHR ''='' # s) = None"
  shows "split_second rt (c # CHR ''='' # rest) [c] = Inl ValueError"
proof -
  from split_from_hd[of "[c]" "[CHR ''='']" rest] obtain w ys where
    w: "split_from [c] [CHR ''=''] rest = (CHR ''='' # w) # ys" by auto
  from assms(1) have "py_split (c # CHR ''='' # rest) [c] = [] # (CHR ''='' # w) # ys"
    by (simp add: py_split_def startswith_def w)
  then have "py_index (py_split (c # CHR ''='' # rest) [c]) 1 = Inr (CHR ''='' # w)"
    by (simp add: py_index_def)
  moreover obtain u where "strip (CHR ''='' # w) = CHR ''='' # u"
    using strip_keeps1[OF eq_sign_facts(1)] by blast
  ultimately show ?thesis
    using assms(2) by (simp add: split_second_def)
qed

lemma py_in_sign: "py_in [c] (c # w)"
  by (simp add: py_in_def startswith_def)

lemma parse_filter_condition_inclusive:
  assumes "c = CHR ''>'' \<or> c = CHR ''<''"
    and "\<not> py_in ''contains'' (lower (strip (c # CHR ''='' # t)))"
    and "\<not> py_in ''=='' (lower (strip (c # CHR ''='' # t)))"
    and "c = CHR ''<'' \<longrightarrow> \<not> py_in ''>'' (lower (strip (c # CHR ''='' # t)))"
    and "\<forall>s. float_of_str rt (CHR ''='' # s) = None"
  shows "parse_filter_condition rt v (c # CHR ''='' # t) = Inr False"
proof -
  from condition_shape[OF assms(1), of t] obtain rest where
    fc: "lower (strip (c # CHR ''='' # t)) = c # CHR ''='' # rest" by blast
  have s: "split_second rt (c # CHR ''='' # rest) [c] = Inl ValueError"
    by (rule split_second_sign[OF sign_facts(3)[OF assms(1)] assms(5)])
  have "parse_numeric rt v (c # CHR ''='' # rest) = Inl ValueError \<or>
        (\<exists>e. py_float rt v = Inl e \<and> parse_numeric rt v (c # CHR ''='' # rest) = Inl e)"
  proof (cases "py_float rt v")
    case (Inl e)
    then show ?thesis by (simp add: parse_numeric_def)
  next
    case (Inr x)
    from assms(1) show ?thesis
    proof
      assume c: "c = CHR ''>''"
      from s py_in_sign[of c "CHR ''='' # rest"] Inr show ?thesis
        unfolding c by (simp add: parse_numeric_def)
    next
      assume c: "c = CHR ''<''"
      with assms(4) fc have "\<not> py_in ''>'' (CHR ''<'' # CHR ''='' # rest)" by simp
      with s py_in_sign[of c "CHR ''='' # rest"] Inr show ?thesis
        unfolding c by (simp add: parse_numeric_def)
    qed
  qed
  then have "except_False (parse_numeric rt v (c # CHR ''='' # rest)) = False"
    by (auto simp: except_False_def)
  with assms(2,3) show ?thesis
    unfolding parse_filter_condition_def fc Let_def by simp
qed

text \<open>
  Claim C10: a condition that starts with \<open>>=\<close> or \<open><=\<close> (and does not contain the word
  \<open>contains\<close>) is never compared inclusively.  \<open>_evaluate_filter\<close> takes the equality
  branch, because the condition contains \<open>=\<close>; what is left of the condition after
  removing \<open>==\<close> and \<open>=\<close> still starts with the comparison sign, so it is no digit
  string, and the result is the equality of the lower-cased \<open>str(value)\<close> with this
  leftover literal.  Hence no \<open>int\<close> matches, nor any \<open>float\<close> whose \<open>str\<close> does not
  start with the sign, whatever the threshold.  The variant \<open>parse_filter_condition\<close> of
  the single-file application tests only \<open>==\<close> for equality; there the condition
  reaches the numeric branch, which converts the text after the sign, starting with
  \<open>=\<close>, to a float; as \<open>float\<close> rejects such a text, the result is \<open>False\<close> for
  every value.
\<close>

theorem C10_inclusive_condition_is_string_equality:
  assumes "c = CHR ''>'' \<or> c = CHR ''<''"
    and "\<not> py_in ''contains'' (lower (strip (c # CHR ''='' # t)))"
  shows "(\<exists>lit. leftover (c # CHR ''='' # t) = c # lit) \<and>
         (\<forall>v. evaluate_filter rt v (c # CHR ''='' # t) =
                Inr (lower (py_str rt v) = lower (leftover (c # CHR ''='' # t)))) \<and>
         (\<forall>i. evaluate_filter rt (PInt i) (c # CHR ''='' # t) = Inr False) \<and>
         (\<forall>x. \<not> startswith (str_float rt x) [c] \<longrightarrow>
                evaluate_filter rt (PFloat x) (c # CHR ''='' # t) = Inr False) \<and>
         ((\<forall>s. float_of_str rt (CHR ''='' # s) = None) \<and>
          \<not> py_in ''=='' (lower (strip (c # CHR ''='' # t))) \<and>
          (c = CHR ''<'' \<longrightarrow> \<not> py_in ''>'' (lower (strip (c # CHR ''='' # t)))) \<longrightarrow>
          (\<forall>v. parse_filter_condition rt v (c # CHR ''='' # t) = Inr False))"
proof -
  let ?cond = "c # CHR ''='' # t"
  from leftover_shape[OF assms(1), of t] obtain lit where lit: "leftover ?cond = c # lit"
    by blast
  have ev: "evaluate_filter rt v ?cond = Inr (lower (py_str rt v) = lower (leftover ?cond))" for v
    by (rule evaluate_filter_inclusive[OF assms])
  have low: "lower (leftover ?cond) = c # lower lit"
    unfolding lit by (simp add: lower_def sign_facts(2)[OF assms(1)])
  have no: "lower s \<noteq> lower (leftover ?cond)" if "\<not> startswith s [c]" for s
    using that lower_sign[OF assms(1), of s "lower lit"] unfolding low by blast
  have int: "evaluate_filter rt (PInt i) ?cond = Inr False" for i
    using no[OF str_int_not_sign[OF assms(1), of i]] by (simp add: ev)
  have flt: "evaluate_filter rt (PFloat x) ?cond = Inr False"
    if "\<not> startswith (str_float rt x) [c]" for x
    using no[OF that] by (simp add: ev)
  have app: "parse_filter_condition rt v ?cond = Inr False"
    if "\<forall>s. float_of_str rt (CHR ''='' # s) = None"
      "\<not> py_in ''=='' (lower (strip ?cond))"
      "c = CHR ''<'' \<longrightarrow> \<not> py_in ''>'' (lower (strip ?cond))" for v
    by (rule parse_filter_condition_inclusive[OF assms that(2,3,1)])
  from lit ev int flt app show ?thesis by blast
qed


lemma leftover_ge_5: "leftover ''>= 5'' = ''> 5''"
  by (simp add: leftover_def string_defs)

text \<open>
  The theorem of C10 at the condition \<open>>= 5\<close>: the leftover literal is \<open>> 5\<close>; the
  numbers \<open>5\<close> and \<open>5.0\<close> do not match, the string \<open>> 5\<close> does, and
  \<open>parse_filter_condition\<close> rejects \<open>5\<close> as well.
\<close>

theorem C10_witness:
  "\<not> py_in ''contains'' (lower (strip ''>= 5'')) \<and>
   \<not> py_in ''=='' (lower (strip ''>= 5'')) \<and>
   \<not> startswith (str_float example_runtime 5) ''>'' \<and>
   leftover ''>= 5'' = ''> 5'' \<and>
   evaluate_filter example_runtime (PInt 5) ''>= 5'' = Inr False \<and>
   evaluate_filter example_runtime (PFloat 5) ''>= 5'' = Inr False \<and>
   evaluate_filter example_runtime (PStr ''> 5'') ''>= 5'' = Inr True \<and>
   parse_filter_condition example_runtime (PInt 5) ''>= 5'' = Inr False"
proof -
  have c: "\<not> py_in ''contains'' (lower (strip ''>= 5''))"
    by (simp add: string_defs)
  have e: "\<not> py_in ''=='' (lower (strip ''>= 5''))"
    by (simp add: string_defs)
  have f: "\<forall>s. float_of_str example_runtime (CHR ''='' # s) = None"
    by (simp add: example_runtime_def isdigit_def)
  have s: "\<not> startswith (str_float example_runtime 5) ''>''"
    by (simp add: example_runtime_def startswith_def str_int_def str_nat.simps)
  have d: "CHR ''>'' = CHR ''>'' \<or> CHR ''>'' = CHR ''<''" by simp
  note T = C10_inclusive_condition_is_string_equality[of "CHR ''>''" "'' 5''" example_runtime, OF d c]
  from T have ev: "\<forall>v. evaluate_filter example_runtime v ''>= 5'' =
                Inr (lower (py_str example_runtime v) = lower (leftover ''>= 5''))"
    by blast
  from T have i: "\<forall>i. evaluate_filter example_runtime (PInt i) ''>= 5'' = Inr False"
    by blast
  from T have x: "\<forall>x. \<not> startswith (str_float example_runtime x) ''>'' \<longrightarrow>
                evaluate_filter example_runtime (PFloat x) ''>= 5'' = Inr False"
    by blast
  from T have p: "(\<forall>s. float_of_str example_runtime (CHR ''='' # s) = None) \<and>
          \<not> py_in ''=='' (lower (strip ''>= 5'')) \<and>
          (CHR ''>'' = CHR ''<'' \<longrightarrow> \<not> py_in ''>'' (lower (strip ''>= 5''))) \<longrightarrow>
          (\<forall>v. parse_filter_condition example_runtime v ''>= 5'' = Inr False)"
    by blast
  from ev have 1: "evaluate_filter example_runtime (PStr ''> 5'') ''>= 5'' = Inr True"
    by (simp add: leftover_ge_5 lower_def lower_char_def)
  from i have 2: "evaluate_filter example_runtime (PInt 5) ''>= 5'' = Inr False" by blast
  from x s have 3: "evaluate_filter example_runtime (PFloat 5) ''>= 5'' = Inr False" by blast
  from p f e have 4: "parse_filter_condition example_runtime (PInt 5) ''>= 5'' = Inr False"
    by simp
  from c e s 1 2 3 4 show ?thesis by (simp add: leftover_ge_5)
qed

end
